theory Spec2Isabelle
  imports Main "HOL-Library.List_Lexorder"
begin

section \<open>Text and the character database\<close>

text \<open>
  A Python \<open>str\<close> is a sequence of Unicode code points, so a text is a list of
  code-point numbers and \<open>len\<close>, indexing and slicing count code points.

  The character properties that \<open>str.lower\<close>, \<open>str.strip\<close>, \<open>str.split\<close>,
  \<open>str.splitlines\<close> and the \<open>re\<close> module consult are those of the interpreter's
  Unicode database. They are written out here for every code point, as ranges, from the
  database of Unicode 14.0 (the one of CPython 3.11). The tables for U+0000..U+017F
  (Basic Latin, Latin-1 Supplement, Latin Extended-A: the blocks of Portuguese text and
  of every character the program's patterns name) come first in each definition; the
  long tables of the code points from U+0180 on are definitions of their own.
\<close>

type_synonym cp = nat
type_synonym str = "cp list"

definition ustr :: "string \<Rightarrow> str" where
  "ustr s = map of_char s"

definition in_ranges :: "(nat \<times> nat) list \<Rightarrow> nat \<Rightarrow> bool" where
  "in_ranges rs c = list_ex (\<lambda>(a, b). a \<le> c \<and> c \<le> b) rs"

text \<open>\<open>str.isspace\<close> of one character; also the class \<open>\s\<close> of \<open>re\<close>.\<close>

definition isspace :: "cp \<Rightarrow> bool" where
  "isspace c = in_ranges [(0x09, 0x0D), (0x1C, 0x20), (0x85, 0x85), (0xA0, 0xA0),
     (0x1680, 0x1680), (0x2000, 0x200A), (0x2028, 0x2029), (0x202F, 0x202F),
     (0x205F, 0x205F), (0x3000, 0x3000)] c"

text \<open>The line boundaries of \<open>str.splitlines\<close>.\<close>

definition is_linebreak :: "cp \<Rightarrow> bool" where
  "is_linebreak c = in_ranges [(0x0A, 0x0D), (0x1C, 0x1E), (0x85, 0x85), (0x2028, 0x2029)] c"

text \<open>
  The class \<open>\d\<close> of a \<open>str\<close> pattern: every Unicode decimal digit (general category
  Nd), of which 0-9 are the only ones below U+0180.
\<close>

definition decimal_ranges :: "(nat \<times> nat) list" where
  "decimal_ranges = [
     (0x660, 0x669), (0x6F0, 0x6F9), (0x7C0, 0x7C9), (0x966, 0x96F), (0x9E6, 0x9EF),
     (0xA66, 0xA6F), (0xAE6, 0xAEF), (0xB66, 0xB6F), (0xBE6, 0xBEF), (0xC66, 0xC6F),
     (0xCE6, 0xCEF), (0xD66, 0xD6F), (0xDE6, 0xDEF), (0xE50, 0xE59), (0xED0, 0xED9),
     (0xF20, 0xF29), (0x1040, 0x1049), (0x1090, 0x1099), (0x17E0, 0x17E9), (0x1810, 0x1819),
     (0x1946, 0x194F), (0x19D0, 0x19D9), (0x1A80, 0x1A89), (0x1A90, 0x1A99), (0x1B50, 0x1B59),
     (0x1BB0, 0x1BB9), (0x1C40, 0x1C49), (0x1C50, 0x1C59), (0xA620, 0xA629), (0xA8D0, 0xA8D9),
     (0xA900, 0xA909), (0xA9D0, 0xA9D9), (0xA9F0, 0xA9F9), (0xAA50, 0xAA59), (0xABF0, 0xABF9),
     (0xFF10, 0xFF19), (0x104A0, 0x104A9), (0x10D30, 0x10D39), (0x11066, 0x1106F),
     (0x110F0, 0x110F9), (0x11136, 0x1113F), (0x111D0, 0x111D9), (0x112F0, 0x112F9),
     (0x11450, 0x11459), (0x114D0, 0x114D9), (0x11650, 0x11659), (0x116C0, 0x116C9),
     (0x11730, 0x11739), (0x118E0, 0x118E9), (0x11950, 0x11959), (0x11C50, 0x11C59),
     (0x11D50, 0x11D59), (0x11DA0, 0x11DA9), (0x16A60, 0x16A69), (0x16AC0, 0x16AC9),
     (0x16B50, 0x16B59), (0x1D7CE, 0x1D7FF), (0x1E140, 0x1E149), (0x1E2F0, 0x1E2F9),
     (0x1E950, 0x1E959), (0x1FBF0, 0x1FBF9)]"

definition isdecimal :: "cp \<Rightarrow> bool" where
  "isdecimal c =
     (if c < 0x180 then in_ranges [(0x30, 0x39)] c else in_ranges decimal_ranges c)"

text \<open>
  The class \<open>\w\<close> of a \<open>str\<close> pattern (\<open>str.isalnum\<close> or the underscore), which
  decides \<open>\b\<close>.
\<close>

definition word_ranges :: "(nat \<times> nat) list" where
  "word_ranges = [
     (0x180, 0x2C1), (0x2C6, 0x2D1), (0x2E0, 0x2E4), (0x2EC, 0x2EC), (0x2EE, 0x2EE),
     (0x370, 0x374), (0x376, 0x377), (0x37A, 0x37D), (0x37F, 0x37F), (0x386, 0x386),
     (0x388, 0x38A), (0x38C, 0x38C), (0x38E, 0x3A1), (0x3A3, 0x3F5), (0x3F7, 0x481),
     (0x48A, 0x52F), (0x531, 0x556), (0x559, 0x559), (0x560, 0x588), (0x5D0, 0x5EA),
     (0x5EF, 0x5F2), (0x620, 0x64A), (0x660, 0x669), (0x66E, 0x66F), (0x671, 0x6D3),
     (0x6D5, 0x6D5), (0x6E5, 0x6E6), (0x6EE, 0x6FC), (0x6FF, 0x6FF), (0x710, 0x710),
     (0x712, 0x72F), (0x74D, 0x7A5), (0x7B1, 0x7B1), (0x7C0, 0x7EA), (0x7F4, 0x7F5),
     (0x7FA, 0x7FA), (0x800, 0x815), (0x81A, 0x81A), (0x824, 0x824), (0x828, 0x828),
     (0x840, 0x858), (0x860, 0x86A), (0x870, 0x887), (0x889, 0x88E), (0x8A0, 0x8C9),
     (0x904, 0x939), (0x93D, 0x93D), (0x950, 0x950), (0x958, 0x961), (0x966, 0x96F),
     (0x971, 0x980), (0x985, 0x98C), (0x98F, 0x990), (0x993, 0x9A8), (0x9AA, 0x9B0),
     (0x9B2, 0x9B2), (0x9B6, 0x9B9), (0x9BD, 0x9BD), (0x9CE, 0x9CE), (0x9DC, 0x9DD),
     (0x9DF, 0x9E1), (0x9E6, 0x9F1), (0x9F4, 0x9F9), (0x9FC, 0x9FC), (0xA05, 0xA0A),
     (0xA0F, 0xA10), (0xA13, 0xA28), (0xA2A, 0xA30), (0xA32, 0xA33), (0xA35, 0xA36),
     (0xA38, 0xA39), (0xA59, 0xA5C), (0xA5E, 0xA5E), (0xA66, 0xA6F), (0xA72, 0xA74),
     (0xA85, 0xA8D), (0xA8F, 0xA91), (0xA93, 0xAA8), (0xAAA, 0xAB0), (0xAB2, 0xAB3),
     (0xAB5, 0xAB9), (0xABD, 0xABD), (0xAD0, 0xAD0), (0xAE0, 0xAE1), (0xAE6, 0xAEF),
     (0xAF9, 0xAF9), (0xB05, 0xB0C), (0xB0F, 0xB10), (0xB13, 0xB28), (0xB2A, 0xB30),
     (0xB32, 0xB33), (0xB35, 0xB39), (0xB3D, 0xB3D), (0xB5C, 0xB5D), (0xB5F, 0xB61),
     (0xB66, 0xB6F), (0xB71, 0xB77), (0xB83, 0xB83), (0xB85, 0xB8A), (0xB8E, 0xB90),
     (0xB92, 0xB95), (0xB99, 0xB9A), (0xB9C, 0xB9C), (0xB9E, 0xB9F), (0xBA3, 0xBA4),
     (0xBA8, 0xBAA), (0xBAE, 0xBB9), (0xBD0, 0xBD0), (0xBE6, 0xBF2), (0xC05, 0xC0C),
     (0xC0E, 0xC10), (0xC12, 0xC28), (0xC2A, 0xC39), (0xC3D, 0xC3D), (0xC58, 0xC5A),
     (0xC5D, 0xC5D), (0xC60, 0xC61), (0xC66, 0xC6F), (0xC78, 0xC7E), (0xC80, 0xC80),
     (0xC85, 0xC8C), (0xC8E, 0xC90), (0xC92, 0xCA8), (0xCAA, 0xCB3), (0xCB5, 0xCB9),
     (0xCBD, 0xCBD), (0xCDD, 0xCDE), (0xCE0, 0xCE1), (0xCE6, 0xCEF), (0xCF1, 0xCF2),
     (0xD04, 0xD0C), (0xD0E, 0xD10), (0xD12, 0xD3A), (0xD3D, 0xD3D), (0xD4E, 0xD4E),
     (0xD54, 0xD56), (0xD58, 0xD61), (0xD66, 0xD78), (0xD7A, 0xD7F), (0xD85, 0xD96),
     (0xD9A, 0xDB1), (0xDB3, 0xDBB), (0xDBD, 0xDBD), (0xDC0, 0xDC6), (0xDE6, 0xDEF),
     (0xE01, 0xE30), (0xE32, 0xE33), (0xE40, 0xE46), (0xE50, 0xE59), (0xE81, 0xE82),
     (0xE84, 0xE84), (0xE86, 0xE8A), (0xE8C, 0xEA3), (0xEA5, 0xEA5), (0xEA7, 0xEB0),
     (0xEB2, 0xEB3), (0xEBD, 0xEBD), (0xEC0, 0xEC4), (0xEC6, 0xEC6), (0xED0, 0xED9),
     (0xEDC, 0xEDF), (0xF00, 0xF00), (0xF20, 0xF33), (0xF40, 0xF47), (0xF49, 0xF6C),
     (0xF88, 0xF8C), (0x1000, 0x102A), (0x103F, 0x1049), (0x1050, 0x1055), (0x105A, 0x105D),
     (0x1061, 0x1061), (0x1065, 0x1066), (0x106E, 0x1070), (0x1075, 0x1081), (0x108E, 0x108E),
     (0x1090, 0x1099), (0x10A0, 0x10C5), (0x10C7, 0x10C7), (0x10CD, 0x10CD), (0x10D0, 0x10FA),
     (0x10FC, 0x1248), (0x124A, 0x124D), (0x1250, 0x1256), (0x1258, 0x1258), (0x125A, 0x125D),
     (0x1260, 0x1288), (0x128A, 0x128D), (0x1290, 0x12B0), (0x12B2, 0x12B5), (0x12B8, 0x12BE),
     (0x12C0, 0x12C0), (0x12C2, 0x12C5), (0x12C8, 0x12D6), (0x12D8, 0x1310), (0x1312, 0x1315),
     (0x1318, 0x135A), (0x1369, 0x137C), (0x1380, 0x138F), (0x13A0, 0x13F5), (0x13F8, 0x13FD),
     (0x1401, 0x166C), (0x166F, 0x167F), (0x1681, 0x169A), (0x16A0, 0x16EA), (0x16EE, 0x16F8),
     (0x1700, 0x1711), (0x171F, 0x1731), (0x1740, 0x1751), (0x1760, 0x176C), (0x176E, 0x1770),
     (0x1780, 0x17B3), (0x17D7, 0x17D7), (0x17DC, 0x17DC), (0x17E0, 0x17E9), (0x17F0, 0x17F9),
     (0x1810, 0x1819), (0x1820, 0x1878), (0x1880, 0x1884), (0x1887, 0x18A8), (0x18AA, 0x18AA),
     (0x18B0, 0x18F5), (0x1900, 0x191E), (0x1946, 0x196D), (0x1970, 0x1974), (0x1980, 0x19AB),
     (0x19B0, 0x19C9), (0x19D0, 0x19DA), (0x1A00, 0x1A16), (0x1A20, 0x1A54), (0x1A80, 0x1A89),
     (0x1A90, 0x1A99), (0x1AA7, 0x1AA7), (0x1B05, 0x1B33), (0x1B45, 0x1B4C), (0x1B50, 0x1B59),
     (0x1B83, 0x1BA0), (0x1BAE, 0x1BE5), (0x1C00, 0x1C23), (0x1C40, 0x1C49), (0x1C4D, 0x1C7D),
     (0x1C80, 0x1C88), (0x1C90, 0x1CBA), (0x1CBD, 0x1CBF), (0x1CE9, 0x1CEC), (0x1CEE, 0x1CF3),
     (0x1CF5, 0x1CF6), (0x1CFA, 0x1CFA), (0x1D00, 0x1DBF), (0x1E00, 0x1F15), (0x1F18, 0x1F1D),
     (0x1F20, 0x1F45), (0x1F48, 0x1F4D), (0x1F50, 0x1F57), (0x1F59, 0x1F59), (0x1F5B, 0x1F5B),
     (0x1F5D, 0x1F5D), (0x1F5F, 0x1F7D), (0x1F80, 0x1FB4), (0x1FB6, 0x1FBC), (0x1FBE, 0x1FBE),
     (0x1FC2, 0x1FC4), (0x1FC6, 0x1FCC), (0x1FD0, 0x1FD3), (0x1FD6, 0x1FDB), (0x1FE0, 0x1FEC),
     (0x1FF2, 0x1FF4), (0x1FF6, 0x1FFC), (0x2070, 0x2071), (0x2074, 0x2079), (0x207F, 0x2089),
     (0x2090, 0x209C), (0x2102, 0x2102), (0x2107, 0x2107), (0x210A, 0x2113), (0x2115, 0x2115),
     (0x2119, 0x211D), (0x2124, 0x2124), (0x2126, 0x2126), (0x2128, 0x2128), (0x212A, 0x212D),
     (0x212F, 0x2139), (0x213C, 0x213F), (0x2145, 0x2149), (0x214E, 0x214E), (0x2150, 0x2189),
     (0x2460, 0x249B), (0x24EA, 0x24FF), (0x2776, 0x2793), (0x2C00, 0x2CE4), (0x2CEB, 0x2CEE),
     (0x2CF2, 0x2CF3), (0x2CFD, 0x2CFD), (0x2D00, 0x2D25), (0x2D27, 0x2D27), (0x2D2D, 0x2D2D),
     (0x2D30, 0x2D67), (0x2D6F, 0x2D6F), (0x2D80, 0x2D96), (0x2DA0, 0x2DA6), (0x2DA8, 0x2DAE),
     (0x2DB0, 0x2DB6), (0x2DB8, 0x2DBE), (0x2DC0, 0x2DC6), (0x2DC8, 0x2DCE), (0x2DD0, 0x2DD6),
     (0x2DD8, 0x2DDE), (0x2E2F, 0x2E2F), (0x3005, 0x3007), (0x3021, 0x3029), (0x3031, 0x3035),
     (0x3038, 0x303C), (0x3041, 0x3096), (0x309D, 0x309F), (0x30A1, 0x30FA), (0x30FC, 0x30FF),
     (0x3105, 0x312F), (0x3131, 0x318E), (0x3192, 0x3195), (0x31A0, 0x31BF), (0x31F0, 0x31FF),
     (0x3220, 0x3229), (0x3248, 0x324F), (0x3251, 0x325F), (0x3280, 0x3289), (0x32B1, 0x32BF),
     (0x3400, 0x4DBF), (0x4E00, 0xA48C), (0xA4D0, 0xA4FD), (0xA500, 0xA60C), (0xA610, 0xA62B),
     (0xA640, 0xA66E), (0xA67F, 0xA69D), (0xA6A0, 0xA6EF), (0xA717, 0xA71F), (0xA722, 0xA788),
     (0xA78B, 0xA7CA), (0xA7D0, 0xA7D1), (0xA7D3, 0xA7D3), (0xA7D5, 0xA7D9), (0xA7F2, 0xA801),
     (0xA803, 0xA805), (0xA807, 0xA80A), (0xA80C, 0xA822), (0xA830, 0xA835), (0xA840, 0xA873),
     (0xA882, 0xA8B3), (0xA8D0, 0xA8D9), (0xA8F2, 0xA8F7), (0xA8FB, 0xA8FB), (0xA8FD, 0xA8FE),
     (0xA900, 0xA925), (0xA930, 0xA946), (0xA960, 0xA97C), (0xA984, 0xA9B2), (0xA9CF, 0xA9D9),
     (0xA9E0, 0xA9E4), (0xA9E6, 0xA9FE), (0xAA00, 0xAA28), (0xAA40, 0xAA42), (0xAA44, 0xAA4B),
     (0xAA50, 0xAA59), (0xAA60, 0xAA76), (0xAA7A, 0xAA7A), (0xAA7E, 0xAAAF), (0xAAB1, 0xAAB1),
     (0xAAB5, 0xAAB6), (0xAAB9, 0xAABD), (0xAAC0, 0xAAC0), (0xAAC2, 0xAAC2), (0xAADB, 0xAADD),
     (0xAAE0, 0xAAEA), (0xAAF2, 0xAAF4), (0xAB01, 0xAB06), (0xAB09, 0xAB0E), (0xAB11, 0xAB16),
     (0xAB20, 0xAB26), (0xAB28, 0xAB2E), (0xAB30, 0xAB5A), (0xAB5C, 0xAB69), (0xAB70, 0xABE2),
     (0xABF0, 0xABF9), (0xAC00, 0xD7A3), (0xD7B0, 0xD7C6), (0xD7CB, 0xD7FB), (0xF900, 0xFA6D),
     (0xFA70, 0xFAD9), (0xFB00, 0xFB06), (0xFB13, 0xFB17), (0xFB1D, 0xFB1D), (0xFB1F, 0xFB28),
     (0xFB2A, 0xFB36), (0xFB38, 0xFB3C), (0xFB3E, 0xFB3E), (0xFB40, 0xFB41), (0xFB43, 0xFB44),
     (0xFB46, 0xFBB1), (0xFBD3, 0xFD3D), (0xFD50, 0xFD8F), (0xFD92, 0xFDC7), (0xFDF0, 0xFDFB),
     (0xFE70, 0xFE74), (0xFE76, 0xFEFC), (0xFF10, 0xFF19), (0xFF21, 0xFF3A), (0xFF41, 0xFF5A),
     (0xFF66, 0xFFBE), (0xFFC2, 0xFFC7), (0xFFCA, 0xFFCF), (0xFFD2, 0xFFD7), (0xFFDA, 0xFFDC),
     (0x10000, 0x1000B), (0x1000D, 0x10026), (0x10028, 0x1003A), (0x1003C, 0x1003D),
     (0x1003F, 0x1004D), (0x10050, 0x1005D), (0x10080, 0x100FA), (0x10107, 0x10133),
     (0x10140, 0x10178), (0x1018A, 0x1018B), (0x10280, 0x1029C), (0x102A0, 0x102D0),
     (0x102E1, 0x102FB), (0x10300, 0x10323), (0x1032D, 0x1034A), (0x10350, 0x10375),
     (0x10380, 0x1039D), (0x103A0, 0x103C3), (0x103C8, 0x103CF), (0x103D1, 0x103D5),
     (0x10400, 0x1049D), (0x104A0, 0x104A9), (0x104B0, 0x104D3), (0x104D8, 0x104FB),
     (0x10500, 0x10527), (0x10530, 0x10563), (0x10570, 0x1057A), (0x1057C, 0x1058A),
     (0x1058C, 0x10592), (0x10594, 0x10595), (0x10597, 0x105A1), (0x105A3, 0x105B1),
     (0x105B3, 0x105B9), (0x105BB, 0x105BC), (0x10600, 0x10736), (0x10740, 0x10755),
     (0x10760, 0x10767), (0x10780, 0x10785), (0x10787, 0x107B0), (0x107B2, 0x107BA),
     (0x10800, 0x10805), (0x10808, 0x10808), (0x1080A, 0x10835), (0x10837, 0x10838),
     (0x1083C, 0x1083C), (0x1083F, 0x10855), (0x10858, 0x10876), (0x10879, 0x1089E),
     (0x108A7, 0x108AF), (0x108E0, 0x108F2), (0x108F4, 0x108F5), (0x108FB, 0x1091B),
     (0x10920, 0x10939), (0x10980, 0x109B7), (0x109BC, 0x109CF), (0x109D2, 0x10A00),
     (0x10A10, 0x10A13), (0x10A15, 0x10A17), (0x10A19, 0x10A35), (0x10A40, 0x10A48),
     (0x10A60, 0x10A7E), (0x10A80, 0x10A9F), (0x10AC0, 0x10AC7), (0x10AC9, 0x10AE4),
     (0x10AEB, 0x10AEF), (0x10B00, 0x10B35), (0x10B40, 0x10B55), (0x10B58, 0x10B72),
     (0x10B78, 0x10B91), (0x10BA9, 0x10BAF), (0x10C00, 0x10C48), (0x10C80, 0x10CB2),
     (0x10CC0, 0x10CF2), (0x10CFA, 0x10D23), (0x10D30, 0x10D39), (0x10E60, 0x10E7E),
     (0x10E80, 0x10EA9), (0x10EB0, 0x10EB1), (0x10F00, 0x10F27), (0x10F30, 0x10F45),
     (0x10F51, 0x10F54), (0x10F70, 0x10F81), (0x10FB0, 0x10FCB), (0x10FE0, 0x10FF6),
     (0x11003, 0x11037), (0x11052, 0x1106F), (0x11071, 0x11072), (0x11075, 0x11075),
     (0x11083, 0x110AF), (0x110D0, 0x110E8), (0x110F0, 0x110F9), (0x11103, 0x11126),
     (0x11136, 0x1113F), (0x11144, 0x11144), (0x11147, 0x11147), (0x11150, 0x11172),
     (0x11176, 0x11176), (0x11183, 0x111B2), (0x111C1, 0x111C4), (0x111D0, 0x111DA),
     (0x111DC, 0x111DC), (0x111E1, 0x111F4), (0x11200, 0x11211), (0x11213, 0x1122B),
     (0x11280, 0x11286), (0x11288, 0x11288), (0x1128A, 0x1128D), (0x1128F, 0x1129D),
     (0x1129F, 0x112A8), (0x112B0, 0x112DE), (0x112F0, 0x112F9), (0x11305, 0x1130C),
     (0x1130F, 0x11310), (0x11313, 0x11328), (0x1132A, 0x11330), (0x11332, 0x11333),
     (0x11335, 0x11339), (0x1133D, 0x1133D), (0x11350, 0x11350), (0x1135D, 0x11361),
     (0x11400, 0x11434), (0x11447, 0x1144A), (0x11450, 0x11459), (0x1145F, 0x11461),
     (0x11480, 0x114AF), (0x114C4, 0x114C5), (0x114C7, 0x114C7), (0x114D0, 0x114D9),
     (0x11580, 0x115AE), (0x115D8, 0x115DB), (0x11600, 0x1162F), (0x11644, 0x11644),
     (0x11650, 0x11659), (0x11680, 0x116AA), (0x116B8, 0x116B8), (0x116C0, 0x116C9),
     (0x11700, 0x1171A), (0x11730, 0x1173B), (0x11740, 0x11746), (0x11800, 0x1182B),
     (0x118A0, 0x118F2), (0x118FF, 0x11906), (0x11909, 0x11909), (0x1190C, 0x11913),
     (0x11915, 0x11916), (0x11918, 0x1192F), (0x1193F, 0x1193F), (0x11941, 0x11941),
     (0x11950, 0x11959), (0x119A0, 0x119A7), (0x119AA, 0x119D0), (0x119E1, 0x119E1),
     (0x119E3, 0x119E3), (0x11A00, 0x11A00), (0x11A0B, 0x11A32), (0x11A3A, 0x11A3A),
     (0x11A50, 0x11A50), (0x11A5C, 0x11A89), (0x11A9D, 0x11A9D), (0x11AB0, 0x11AF8),
     (0x11C00, 0x11C08), (0x11C0A, 0x11C2E), (0x11C40, 0x11C40), (0x11C50, 0x11C6C),
     (0x11C72, 0x11C8F), (0x11D00, 0x11D06), (0x11D08, 0x11D09), (0x11D0B, 0x11D30),
     (0x11D46, 0x11D46), (0x11D50, 0x11D59), (0x11D60, 0x11D65), (0x11D67, 0x11D68),
     (0x11D6A, 0x11D89), (0x11D98, 0x11D98), (0x11DA0, 0x11DA9), (0x11EE0, 0x11EF2),
     (0x11FB0, 0x11FB0), (0x11FC0, 0x11FD4), (0x12000, 0x12399), (0x12400, 0x1246E),
     (0x12480, 0x12543), (0x12F90, 0x12FF0), (0x13000, 0x1342E), (0x14400, 0x14646),
     (0x16800, 0x16A38), (0x16A40, 0x16A5E), (0x16A60, 0x16A69), (0x16A70, 0x16ABE),
     (0x16AC0, 0x16AC9), (0x16AD0, 0x16AED), (0x16B00, 0x16B2F), (0x16B40, 0x16B43),
     (0x16B50, 0x16B59), (0x16B5B, 0x16B61), (0x16B63, 0x16B77), (0x16B7D, 0x16B8F),
     (0x16E40, 0x16E96), (0x16F00, 0x16F4A), (0x16F50, 0x16F50), (0x16F93, 0x16F9F),
     (0x16FE0, 0x16FE1), (0x16FE3, 0x16FE3), (0x17000, 0x187F7), (0x18800, 0x18CD5),
     (0x18D00, 0x18D08), (0x1AFF0, 0x1AFF3), (0x1AFF5, 0x1AFFB), (0x1AFFD, 0x1AFFE),
     (0x1B000, 0x1B122), (0x1B150, 0x1B152), (0x1B164, 0x1B167), (0x1B170, 0x1B2FB),
     (0x1BC00, 0x1BC6A), (0x1BC70, 0x1BC7C), (0x1BC80, 0x1BC88), (0x1BC90, 0x1BC99),
     (0x1D2E0, 0x1D2F3), (0x1D360, 0x1D378), (0x1D400, 0x1D454), (0x1D456, 0x1D49C),
     (0x1D49E, 0x1D49F), (0x1D4A2, 0x1D4A2), (0x1D4A5, 0x1D4A6), (0x1D4A9, 0x1D4AC),
     (0x1D4AE, 0x1D4B9), (0x1D4BB, 0x1D4BB), (0x1D4BD, 0x1D4C3), (0x1D4C5, 0x1D505),
     (0x1D507, 0x1D50A), (0x1D50D, 0x1D514), (0x1D516, 0x1D51C), (0x1D51E, 0x1D539),
     (0x1D53B, 0x1D53E), (0x1D540, 0x1D544), (0x1D546, 0x1D546), (0x1D54A, 0x1D550),
     (0x1D552, 0x1D6A5), (0x1D6A8, 0x1D6C0), (0x1D6C2, 0x1D6DA), (0x1D6DC, 0x1D6FA),
     (0x1D6FC, 0x1D714), (0x1D716, 0x1D734), (0x1D736, 0x1D74E), (0x1D750, 0x1D76E),
     (0x1D770, 0x1D788), (0x1D78A, 0x1D7A8), (0x1D7AA, 0x1D7C2), (0x1D7C4, 0x1D7CB),
     (0x1D7CE, 0x1D7FF), (0x1DF00, 0x1DF1E), (0x1E100, 0x1E12C), (0x1E137, 0x1E13D),
     (0x1E140, 0x1E149), (0x1E14E, 0x1E14E), (0x1E290, 0x1E2AD), (0x1E2C0, 0x1E2EB),
     (0x1E2F0, 0x1E2F9), (0x1E7E0, 0x1E7E6), (0x1E7E8, 0x1E7EB), (0x1E7ED, 0x1E7EE),
     (0x1E7F0, 0x1E7FE), (0x1E800, 0x1E8C4), (0x1E8C7, 0x1E8CF), (0x1E900, 0x1E943),
     (0x1E94B, 0x1E94B), (0x1E950, 0x1E959), (0x1EC71, 0x1ECAB), (0x1ECAD, 0x1ECAF),
     (0x1ECB1, 0x1ECB4), (0x1ED01, 0x1ED2D), (0x1ED2F, 0x1ED3D), (0x1EE00, 0x1EE03),
     (0x1EE05, 0x1EE1F), (0x1EE21, 0x1EE22), (0x1EE24, 0x1EE24), (0x1EE27, 0x1EE27),
     (0x1EE29, 0x1EE32), (0x1EE34, 0x1EE37), (0x1EE39, 0x1EE39), (0x1EE3B, 0x1EE3B),
     (0x1EE42, 0x1EE42), (0x1EE47, 0x1EE47), (0x1EE49, 0x1EE49), (0x1EE4B, 0x1EE4B),
     (0x1EE4D, 0x1EE4F), (0x1EE51, 0x1EE52), (0x1EE54, 0x1EE54), (0x1EE57, 0x1EE57),
     (0x1EE59, 0x1EE59), (0x1EE5B, 0x1EE5B), (0x1EE5D, 0x1EE5D), (0x1EE5F, 0x1EE5F),
     (0x1EE61, 0x1EE62), (0x1EE64, 0x1EE64), (0x1EE67, 0x1EE6A), (0x1EE6C, 0x1EE72),
     (0x1EE74, 0x1EE77), (0x1EE79, 0x1EE7C), (0x1EE7E, 0x1EE7E), (0x1EE80, 0x1EE89),
     (0x1EE8B, 0x1EE9B), (0x1EEA1, 0x1EEA3), (0x1EEA5, 0x1EEA9), (0x1EEAB, 0x1EEBB),
     (0x1F100, 0x1F10C), (0x1FBF0, 0x1FBF9), (0x20000, 0x2A6DF), (0x2A700, 0x2B738),
     (0x2B740, 0x2B81D), (0x2B820, 0x2CEA1), (0x2CEB0, 0x2EBE0), (0x2F800, 0x2FA1D),
     (0x30000, 0x3134A)]"

definition isword :: "cp \<Rightarrow> bool" where
  "isword c =
     (if c < 0x180
      then in_ranges [(0x30, 0x39), (0x41, 0x5A), (0x5F, 0x5F), (0x61, 0x7A),
        (0xAA, 0xAA), (0xB2, 0xB3), (0xB5, 0xB5), (0xB9, 0xBA), (0xBC, 0xBE),
        (0xC0, 0xD6), (0xD8, 0xF6), (0xF8, 0x17F)] c
      else in_ranges word_ranges c)"

text \<open>
  The simple lower-case mapping (one code point to one code point) that \<open>re\<close> uses.
  From U+0180 on it is a table of runs \<open>(first, last, lower case of first, step)\<close>:
  the code points \<open>first, first + step, \<dots>\<close> up to \<open>last\<close> map to the code points at the
  same distance from the lower case of \<open>first\<close>; every other code point is its own
  lower case.
\<close>

definition tolower_runs :: "(nat \<times> nat \<times> nat \<times> nat) list" where
  "tolower_runs = [
     (0x181, 0x181, 0x253, 1), (0x182, 0x184, 0x183, 2), (0x186, 0x186, 0x254, 1),
     (0x187, 0x187, 0x188, 1), (0x189, 0x18A, 0x256, 1), (0x18B, 0x18B, 0x18C, 1),
     (0x18E, 0x18E, 0x1DD, 1), (0x18F, 0x18F, 0x259, 1), (0x190, 0x190, 0x25B, 1),
     (0x191, 0x191, 0x192, 1), (0x193, 0x193, 0x260, 1), (0x194, 0x194, 0x263, 1),
     (0x196, 0x196, 0x269, 1), (0x197, 0x197, 0x268, 1), (0x198, 0x198, 0x199, 1),
     (0x19C, 0x19C, 0x26F, 1), (0x19D, 0x19D, 0x272, 1), (0x19F, 0x19F, 0x275, 1),
     (0x1A0, 0x1A4, 0x1A1, 2), (0x1A6, 0x1A6, 0x280, 1), (0x1A7, 0x1A7, 0x1A8, 1),
     (0x1A9, 0x1A9, 0x283, 1), (0x1AC, 0x1AC, 0x1AD, 1), (0x1AE, 0x1AE, 0x288, 1),
     (0x1AF, 0x1AF, 0x1B0, 1), (0x1B1, 0x1B2, 0x28A, 1), (0x1B3, 0x1B5, 0x1B4, 2),
     (0x1B7, 0x1B7, 0x292, 1), (0x1B8, 0x1B8, 0x1B9, 1), (0x1BC, 0x1BC, 0x1BD, 1),
     (0x1C4, 0x1C4, 0x1C6, 1), (0x1C5, 0x1C5, 0x1C6, 1), (0x1C7, 0x1C7, 0x1C9, 1),
     (0x1C8, 0x1C8, 0x1C9, 1), (0x1CA, 0x1CA, 0x1CC, 1), (0x1CB, 0x1DB, 0x1CC, 2),
     (0x1DE, 0x1EE, 0x1DF, 2), (0x1F1, 0x1F1, 0x1F3, 1), (0x1F2, 0x1F4, 0x1F3, 2),
     (0x1F6, 0x1F6, 0x195, 1), (0x1F7, 0x1F7, 0x1BF, 1), (0x1F8, 0x21E, 0x1F9, 2),
     (0x220, 0x220, 0x19E, 1), (0x222, 0x232, 0x223, 2), (0x23A, 0x23A, 0x2C65, 1),
     (0x23B, 0x23B, 0x23C, 1), (0x23D, 0x23D, 0x19A, 1), (0x23E, 0x23E, 0x2C66, 1),
     (0x241, 0x241, 0x242, 1), (0x243, 0x243, 0x180, 1), (0x244, 0x244, 0x289, 1),
     (0x245, 0x245, 0x28C, 1), (0x246, 0x24E, 0x247, 2), (0x370, 0x372, 0x371, 2),
     (0x376, 0x376, 0x377, 1), (0x37F, 0x37F, 0x3F3, 1), (0x386, 0x386, 0x3AC, 1),
     (0x388, 0x38A, 0x3AD, 1), (0x38C, 0x38C, 0x3CC, 1), (0x38E, 0x38F, 0x3CD, 1),
     (0x391, 0x3A1, 0x3B1, 1), (0x3A3, 0x3AB, 0x3C3, 1), (0x3CF, 0x3CF, 0x3D7, 1),
     (0x3D8, 0x3EE, 0x3D9, 2), (0x3F4, 0x3F4, 0x3B8, 1), (0x3F7, 0x3F7, 0x3F8, 1),
     (0x3F9, 0x3F9, 0x3F2, 1), (0x3FA, 0x3FA, 0x3FB, 1), (0x3FD, 0x3FF, 0x37B, 1),
     (0x400, 0x40F, 0x450, 1), (0x410, 0x42F, 0x430, 1), (0x460, 0x480, 0x461, 2),
     (0x48A, 0x4BE, 0x48B, 2), (0x4C0, 0x4C0, 0x4CF, 1), (0x4C1, 0x4CD, 0x4C2, 2),
     (0x4D0, 0x52E, 0x4D1, 2), (0x531, 0x556, 0x561, 1), (0x10A0, 0x10C5, 0x2D00, 1),
     (0x10C7, 0x10C7, 0x2D27, 1), (0x10CD, 0x10CD, 0x2D2D, 1), (0x13A0, 0x13EF, 0xAB70, 1),
     (0x13F0, 0x13F5, 0x13F8, 1), (0x1C90, 0x1CBA, 0x10D0, 1), (0x1CBD, 0x1CBF, 0x10FD, 1),
     (0x1E00, 0x1E94, 0x1E01, 2), (0x1E9E, 0x1E9E, 0xDF, 1), (0x1EA0, 0x1EFE, 0x1EA1, 2),
     (0x1F08, 0x1F0F, 0x1F00, 1), (0x1F18, 0x1F1D, 0x1F10, 1), (0x1F28, 0x1F2F, 0x1F20, 1),
     (0x1F38, 0x1F3F, 0x1F30, 1), (0x1F48, 0x1F4D, 0x1F40, 1), (0x1F59, 0x1F5F, 0x1F51, 2),
     (0x1F68, 0x1F6F, 0x1F60, 1), (0x1F88, 0x1F8F, 0x1F80, 1), (0x1F98, 0x1F9F, 0x1F90, 1),
     (0x1FA8, 0x1FAF, 0x1FA0, 1), (0x1FB8, 0x1FB9, 0x1FB0, 1), (0x1FBA, 0x1FBB, 0x1F70, 1),
     (0x1FBC, 0x1FBC, 0x1FB3, 1), (0x1FC8, 0x1FCB, 0x1F72, 1), (0x1FCC, 0x1FCC, 0x1FC3, 1),
     (0x1FD8, 0x1FD9, 0x1FD0, 1), (0x1FDA, 0x1FDB, 0x1F76, 1), (0x1FE8, 0x1FE9, 0x1FE0, 1),
     (0x1FEA, 0x1FEB, 0x1F7A, 1), (0x1FEC, 0x1FEC, 0x1FE5, 1), (0x1FF8, 0x1FF9, 0x1F78, 1),
     (0x1FFA, 0x1FFB, 0x1F7C, 1), (0x1FFC, 0x1FFC, 0x1FF3, 1), (0x2126, 0x2126, 0x3C9, 1),
     (0x212A, 0x212A, 0x6B, 1), (0x212B, 0x212B, 0xE5, 1), (0x2132, 0x2132, 0x214E, 1),
     (0x2160, 0x216F, 0x2170, 1), (0x2183, 0x2183, 0x2184, 1), (0x24B6, 0x24CF, 0x24D0, 1),
     (0x2C00, 0x2C2F, 0x2C30, 1), (0x2C60, 0x2C60, 0x2C61, 1), (0x2C62, 0x2C62, 0x26B, 1),
     (0x2C63, 0x2C63, 0x1D7D, 1), (0x2C64, 0x2C64, 0x27D, 1), (0x2C67, 0x2C6B, 0x2C68, 2),
     (0x2C6D, 0x2C6D, 0x251, 1), (0x2C6E, 0x2C6E, 0x271, 1), (0x2C6F, 0x2C6F, 0x250, 1),
     (0x2C70, 0x2C70, 0x252, 1), (0x2C72, 0x2C72, 0x2C73, 1), (0x2C75, 0x2C75, 0x2C76, 1),
     (0x2C7E, 0x2C7F, 0x23F, 1), (0x2C80, 0x2CE2, 0x2C81, 2), (0x2CEB, 0x2CED, 0x2CEC, 2),
     (0x2CF2, 0x2CF2, 0x2CF3, 1), (0xA640, 0xA66C, 0xA641, 2), (0xA680, 0xA69A, 0xA681, 2),
     (0xA722, 0xA72E, 0xA723, 2), (0xA732, 0xA76E, 0xA733, 2), (0xA779, 0xA77B, 0xA77A, 2),
     (0xA77D, 0xA77D, 0x1D79, 1), (0xA77E, 0xA786, 0xA77F, 2), (0xA78B, 0xA78B, 0xA78C, 1),
     (0xA78D, 0xA78D, 0x265, 1), (0xA790, 0xA792, 0xA791, 2), (0xA796, 0xA7A8, 0xA797, 2),
     (0xA7AA, 0xA7AA, 0x266, 1), (0xA7AB, 0xA7AB, 0x25C, 1), (0xA7AC, 0xA7AC, 0x261, 1),
     (0xA7AD, 0xA7AD, 0x26C, 1), (0xA7AE, 0xA7AE, 0x26A, 1), (0xA7B0, 0xA7B0, 0x29E, 1),
     (0xA7B1, 0xA7B1, 0x287, 1), (0xA7B2, 0xA7B2, 0x29D, 1), (0xA7B3, 0xA7B3, 0xAB53, 1),
     (0xA7B4, 0xA7C2, 0xA7B5, 2), (0xA7C4, 0xA7C4, 0xA794, 1), (0xA7C5, 0xA7C5, 0x282, 1),
     (0xA7C6, 0xA7C6, 0x1D8E, 1), (0xA7C7, 0xA7C9, 0xA7C8, 2), (0xA7D0, 0xA7D0, 0xA7D1, 1),
     (0xA7D6, 0xA7D8, 0xA7D7, 2), (0xA7F5, 0xA7F5, 0xA7F6, 1), (0xFF21, 0xFF3A, 0xFF41, 1),
     (0x10400, 0x10427, 0x10428, 1), (0x104B0, 0x104D3, 0x104D8, 1),
     (0x10570, 0x1057A, 0x10597, 1), (0x1057C, 0x1058A, 0x105A3, 1),
     (0x1058C, 0x10592, 0x105B3, 1), (0x10594, 0x10595, 0x105BB, 1),
     (0x10C80, 0x10CB2, 0x10CC0, 1), (0x118A0, 0x118BF, 0x118C0, 1),
     (0x16E40, 0x16E5F, 0x16E60, 1), (0x1E900, 0x1E921, 0x1E922, 1)]"

definition tolower_high :: "cp \<Rightarrow> cp" where
  "tolower_high c =
     (case List.find (\<lambda>(a, b, t, k). a \<le> c \<and> c \<le> b \<and> (c - a) mod k = 0) tolower_runs of
        None \<Rightarrow> c
      | Some (a, b, t, k) \<Rightarrow> t + (c - a))"

definition unicode_tolower :: "cp \<Rightarrow> cp" where
  "unicode_tolower c =
     (if c < 0x180
      then (if in_ranges [(0x41, 0x5A), (0xC0, 0xD6), (0xD8, 0xDE)] c then c + 32
            else if c = 0x130 then 0x69
            else if c = 0x178 then 0xFF
            else if in_ranges [(0x100, 0x137), (0x14A, 0x177)] c \<and> even c then c + 1
            else if in_ranges [(0x139, 0x148), (0x179, 0x17E)] c \<and> odd c then c + 1
            else c)
      else tolower_high c)"

text \<open>
  Whether \<open>re\<close> takes a pattern character as cased: its simple lower case or its simple
  upper case is another character.
\<close>

definition re_cased_ranges :: "(nat \<times> nat) list" where
  "re_cased_ranges = [
     (0x180, 0x18C), (0x18E, 0x19A), (0x19C, 0x1A9), (0x1AC, 0x1B9), (0x1BC, 0x1BD),
     (0x1BF, 0x1BF), (0x1C4, 0x220), (0x222, 0x233), (0x23A, 0x254), (0x256, 0x257),
     (0x259, 0x259), (0x25B, 0x25C), (0x260, 0x261), (0x263, 0x263), (0x265, 0x266),
     (0x268, 0x26C), (0x26F, 0x26F), (0x271, 0x272), (0x275, 0x275), (0x27D, 0x27D),
     (0x280, 0x280), (0x282, 0x283), (0x287, 0x28C), (0x292, 0x292), (0x29D, 0x29E),
     (0x345, 0x345), (0x370, 0x373), (0x376, 0x377), (0x37B, 0x37D), (0x37F, 0x37F),
     (0x386, 0x386), (0x388, 0x38A), (0x38C, 0x38C), (0x38E, 0x3A1), (0x3A3, 0x3D1),
     (0x3D5, 0x3F5), (0x3F7, 0x3FB), (0x3FD, 0x481), (0x48A, 0x52F), (0x531, 0x556),
     (0x561, 0x587), (0x10A0, 0x10C5), (0x10C7, 0x10C7), (0x10CD, 0x10CD), (0x10D0, 0x10FA),
     (0x10FD, 0x10FF), (0x13A0, 0x13F5), (0x13F8, 0x13FD), (0x1C80, 0x1C88), (0x1C90, 0x1CBA),
     (0x1CBD, 0x1CBF), (0x1D79, 0x1D79), (0x1D7D, 0x1D7D), (0x1D8E, 0x1D8E), (0x1E00, 0x1E9B),
     (0x1E9E, 0x1E9E), (0x1EA0, 0x1F15), (0x1F18, 0x1F1D), (0x1F20, 0x1F45), (0x1F48, 0x1F4D),
     (0x1F50, 0x1F57), (0x1F59, 0x1F59), (0x1F5B, 0x1F5B), (0x1F5D, 0x1F5D), (0x1F5F, 0x1F7D),
     (0x1F80, 0x1FB4), (0x1FB6, 0x1FBC), (0x1FBE, 0x1FBE), (0x1FC2, 0x1FC4), (0x1FC6, 0x1FCC),
     (0x1FD0, 0x1FD3), (0x1FD6, 0x1FDB), (0x1FE0, 0x1FEC), (0x1FF2, 0x1FF4), (0x1FF6, 0x1FFC),
     (0x2126, 0x2126), (0x212A, 0x212B), (0x2132, 0x2132), (0x214E, 0x214E), (0x2160, 0x217F),
     (0x2183, 0x2184), (0x24B6, 0x24E9), (0x2C00, 0x2C70), (0x2C72, 0x2C73), (0x2C75, 0x2C76),
     (0x2C7E, 0x2CE3), (0x2CEB, 0x2CEE), (0x2CF2, 0x2CF3), (0x2D00, 0x2D25), (0x2D27, 0x2D27),
     (0x2D2D, 0x2D2D), (0xA640, 0xA66D), (0xA680, 0xA69B), (0xA722, 0xA72F), (0xA732, 0xA76F),
     (0xA779, 0xA787), (0xA78B, 0xA78D), (0xA790, 0xA794), (0xA796, 0xA7AE), (0xA7B0, 0xA7CA),
     (0xA7D0, 0xA7D1), (0xA7D6, 0xA7D9), (0xA7F5, 0xA7F6), (0xAB53, 0xAB53), (0xAB70, 0xABBF),
     (0xFB00, 0xFB06), (0xFB13, 0xFB17), (0xFF21, 0xFF3A), (0xFF41, 0xFF5A), (0x10400, 0x1044F),
     (0x104B0, 0x104D3), (0x104D8, 0x104FB), (0x10570, 0x1057A), (0x1057C, 0x1058A),
     (0x1058C, 0x10592), (0x10594, 0x10595), (0x10597, 0x105A1), (0x105A3, 0x105B1),
     (0x105B3, 0x105B9), (0x105BB, 0x105BC), (0x10C80, 0x10CB2), (0x10CC0, 0x10CF2),
     (0x118A0, 0x118DF), (0x16E40, 0x16E7F), (0x1E900, 0x1E943)]"

definition unicode_iscased :: "cp \<Rightarrow> bool" where
  "unicode_iscased c =
     (if c < 0x180
      then in_ranges [(0x41, 0x5A), (0x61, 0x7A), (0xB5, 0xB5), (0xC0, 0xD6),
        (0xD8, 0xF6), (0xF8, 0x137), (0x139, 0x17F)] c
      else in_ranges re_cased_ranges c)"

text \<open>
  The lower-case letters that share an upper-case letter with other lower-case
  letters: \<open>re\<close> with IGNORECASE lets each stand for the others.
\<close>

definition extra_cases :: "(cp \<times> cp list) list" where
  "extra_cases = [
     (0x345, [0x3B9, 0x1FBE]), (0x390, [0x1FD3]), (0x3B0, [0x1FE3]), (0x3B2, [0x3D0]),
     (0x3B5, [0x3F5]), (0x3B8, [0x3D1]), (0x3B9, [0x345, 0x1FBE]), (0x3BA, [0x3F0]),
     (0x3BC, [0xB5]), (0x3C0, [0x3D6]), (0x3C1, [0x3F1]), (0x3C2, [0x3C3]), (0x3C3, [0x3C2]),
     (0x3C6, [0x3D5]), (0x3D0, [0x3B2]), (0x3D1, [0x3B8]), (0x3D5, [0x3C6]), (0x3D6, [0x3C0]),
     (0x3F0, [0x3BA]), (0x3F1, [0x3C1]), (0x3F5, [0x3B5]), (0x432, [0x1C80]), (0x434, [0x1C81]),
     (0x43E, [0x1C82]), (0x441, [0x1C83]), (0x442, [0x1C84, 0x1C85]), (0x44A, [0x1C86]),
     (0x463, [0x1C87]), (0x1C80, [0x432]), (0x1C81, [0x434]), (0x1C82, [0x43E]),
     (0x1C83, [0x441]), (0x1C84, [0x442, 0x1C85]), (0x1C85, [0x442, 0x1C84]), (0x1C86, [0x44A]),
     (0x1C87, [0x463]), (0x1C88, [0xA64B]), (0x1E61, [0x1E9B]), (0x1E9B, [0x1E61]),
     (0x1FBE, [0x345, 0x3B9]), (0x1FD3, [0x390]), (0x1FE3, [0x3B0]), (0xA64B, [0x1C88]),
     (0xFB05, [0xFB06]), (0xFB06, [0xFB05])]"

definition ignorecase_fixes :: "cp \<Rightarrow> cp list" where
  "ignorecase_fixes c =
     (if c < 0x180
      then (if c = 0x69 then [0x131] else if c = 0x131 then [0x69]
            else if c = 0x73 then [0x17F] else if c = 0x17F then [0x73]
            else if c = 0xB5 then [0x3BC] else [])
      else (case map_of extra_cases c of None \<Rightarrow> [] | Some ks \<Rightarrow> ks))"

text \<open>
  \<open>str.lower\<close> of one character other than the capital sigma. It is the simple mapping
  except for U+0130, whose lower case is two code points.
\<close>

definition lower_char :: "cp \<Rightarrow> str" where
  "lower_char c = (if c = 0x130 then [0x69, 0x307] else [unicode_tolower c])"

text \<open>
  The two properties that decide the lower case of the capital sigma U+03A3:
  Case_Ignorable and Cased.
\<close>

definition case_ignorable_ranges :: "(nat \<times> nat) list" where
  "case_ignorable_ranges = [
     (0x27, 0x27), (0x2E, 0x2E), (0x3A, 0x3A), (0x5E, 0x5E), (0x60, 0x60), (0xA8, 0xA8),
     (0xAD, 0xAD), (0xAF, 0xAF), (0xB4, 0xB4), (0xB7, 0xB8), (0x2B0, 0x36F), (0x374, 0x375),
     (0x37A, 0x37A), (0x384, 0x385), (0x387, 0x387), (0x483, 0x489), (0x559, 0x559),
     (0x55F, 0x55F), (0x591, 0x5BD), (0x5BF, 0x5BF), (0x5C1, 0x5C2), (0x5C4, 0x5C5),
     (0x5C7, 0x5C7), (0x5F4, 0x5F4), (0x600, 0x605), (0x610, 0x61A), (0x61C, 0x61C),
     (0x640, 0x640), (0x64B, 0x65F), (0x670, 0x670), (0x6D6, 0x6DD), (0x6DF, 0x6E8),
     (0x6EA, 0x6ED), (0x70F, 0x70F), (0x711, 0x711), (0x730, 0x74A), (0x7A6, 0x7B0),
     (0x7EB, 0x7F5), (0x7FA, 0x7FA), (0x7FD, 0x7FD), (0x816, 0x82D), (0x859, 0x85B),
     (0x888, 0x888), (0x890, 0x891), (0x898, 0x89F), (0x8C9, 0x902), (0x93A, 0x93A),
     (0x93C, 0x93C), (0x941, 0x948), (0x94D, 0x94D), (0x951, 0x957), (0x962, 0x963),
     (0x971, 0x971), (0x981, 0x981), (0x9BC, 0x9BC), (0x9C1, 0x9C4), (0x9CD, 0x9CD),
     (0x9E2, 0x9E3), (0x9FE, 0x9FE), (0xA01, 0xA02), (0xA3C, 0xA3C), (0xA41, 0xA42),
     (0xA47, 0xA48), (0xA4B, 0xA4D), (0xA51, 0xA51), (0xA70, 0xA71), (0xA75, 0xA75),
     (0xA81, 0xA82), (0xABC, 0xABC), (0xAC1, 0xAC5), (0xAC7, 0xAC8), (0xACD, 0xACD),
     (0xAE2, 0xAE3), (0xAFA, 0xAFF), (0xB01, 0xB01), (0xB3C, 0xB3C), (0xB3F, 0xB3F),
     (0xB41, 0xB44), (0xB4D, 0xB4D), (0xB55, 0xB56), (0xB62, 0xB63), (0xB82, 0xB82),
     (0xBC0, 0xBC0), (0xBCD, 0xBCD), (0xC00, 0xC00), (0xC04, 0xC04), (0xC3C, 0xC3C),
     (0xC3E, 0xC40), (0xC46, 0xC48), (0xC4A, 0xC4D), (0xC55, 0xC56), (0xC62, 0xC63),
     (0xC81, 0xC81), (0xCBC, 0xCBC), (0xCBF, 0xCBF), (0xCC6, 0xCC6), (0xCCC, 0xCCD),
     (0xCE2, 0xCE3), (0xD00, 0xD01), (0xD3B, 0xD3C), (0xD41, 0xD44), (0xD4D, 0xD4D),
     (0xD62, 0xD63), (0xD81, 0xD81), (0xDCA, 0xDCA), (0xDD2, 0xDD4), (0xDD6, 0xDD6),
     (0xE31, 0xE31), (0xE34, 0xE3A), (0xE46, 0xE4E), (0xEB1, 0xEB1), (0xEB4, 0xEBC),
     (0xEC6, 0xEC6), (0xEC8, 0xECD), (0xF18, 0xF19), (0xF35, 0xF35), (0xF37, 0xF37),
     (0xF39, 0xF39), (0xF71, 0xF7E), (0xF80, 0xF84), (0xF86, 0xF87), (0xF8D, 0xF97),
     (0xF99, 0xFBC), (0xFC6, 0xFC6), (0x102D, 0x1030), (0x1032, 0x1037), (0x1039, 0x103A),
     (0x103D, 0x103E), (0x1058, 0x1059), (0x105E, 0x1060), (0x1071, 0x1074), (0x1082, 0x1082),
     (0x1085, 0x1086), (0x108D, 0x108D), (0x109D, 0x109D), (0x10FC, 0x10FC), (0x135D, 0x135F),
     (0x1712, 0x1714), (0x1732, 0x1733), (0x1752, 0x1753), (0x1772, 0x1773), (0x17B4, 0x17B5),
     (0x17B7, 0x17BD), (0x17C6, 0x17C6), (0x17C9, 0x17D3), (0x17D7, 0x17D7), (0x17DD, 0x17DD),
     (0x180B, 0x180F), (0x1843, 0x1843), (0x1885, 0x1886), (0x18A9, 0x18A9), (0x1920, 0x1922),
     (0x1927, 0x1928), (0x1932, 0x1932), (0x1939, 0x193B), (0x1A17, 0x1A18), (0x1A1B, 0x1A1B),
     (0x1A56, 0x1A56), (0x1A58, 0x1A5E), (0x1A60, 0x1A60), (0x1A62, 0x1A62), (0x1A65, 0x1A6C),
     (0x1A73, 0x1A7C), (0x1A7F, 0x1A7F), (0x1AA7, 0x1AA7), (0x1AB0, 0x1ACE), (0x1B00, 0x1B03),
     (0x1B34, 0x1B34), (0x1B36, 0x1B3A), (0x1B3C, 0x1B3C), (0x1B42, 0x1B42), (0x1B6B, 0x1B73),
     (0x1B80, 0x1B81), (0x1BA2, 0x1BA5), (0x1BA8, 0x1BA9), (0x1BAB, 0x1BAD), (0x1BE6, 0x1BE6),
     (0x1BE8, 0x1BE9), (0x1BED, 0x1BED), (0x1BEF, 0x1BF1), (0x1C2C, 0x1C33), (0x1C36, 0x1C37),
     (0x1C78, 0x1C7D), (0x1CD0, 0x1CD2), (0x1CD4, 0x1CE0), (0x1CE2, 0x1CE8), (0x1CED, 0x1CED),
     (0x1CF4, 0x1CF4), (0x1CF8, 0x1CF9), (0x1D2C, 0x1D6A), (0x1D78, 0x1D78), (0x1D9B, 0x1DFF),
     (0x1FBD, 0x1FBD), (0x1FBF, 0x1FC1), (0x1FCD, 0x1FCF), (0x1FDD, 0x1FDF), (0x1FED, 0x1FEF),
     (0x1FFD, 0x1FFE), (0x200B, 0x200F), (0x2018, 0x2019), (0x2024, 0x2024), (0x2027, 0x2027),
     (0x202A, 0x202E), (0x2060, 0x2064), (0x2066, 0x206F), (0x2071, 0x2071), (0x207F, 0x207F),
     (0x2090, 0x209C), (0x20D0, 0x20F0), (0x2C7C, 0x2C7D), (0x2CEF, 0x2CF1), (0x2D6F, 0x2D6F),
     (0x2D7F, 0x2D7F), (0x2DE0, 0x2DFF), (0x2E2F, 0x2E2F), (0x3005, 0x3005), (0x302A, 0x302D),
     (0x3031, 0x3035), (0x303B, 0x303B), (0x3099, 0x309E), (0x30FC, 0x30FE), (0xA015, 0xA015),
     (0xA4F8, 0xA4FD), (0xA60C, 0xA60C), (0xA66F, 0xA672), (0xA674, 0xA67D), (0xA67F, 0xA67F),
     (0xA69C, 0xA69F), (0xA6F0, 0xA6F1), (0xA700, 0xA721), (0xA770, 0xA770), (0xA788, 0xA78A),
     (0xA7F2, 0xA7F4), (0xA7F8, 0xA7F9), (0xA802, 0xA802), (0xA806, 0xA806), (0xA80B, 0xA80B),
     (0xA825, 0xA826), (0xA82C, 0xA82C), (0xA8C4, 0xA8C5), (0xA8E0, 0xA8F1), (0xA8FF, 0xA8FF),
     (0xA926, 0xA92D), (0xA947, 0xA951), (0xA980, 0xA982), (0xA9B3, 0xA9B3), (0xA9B6, 0xA9B9),
     (0xA9BC, 0xA9BD), (0xA9CF, 0xA9CF), (0xA9E5, 0xA9E6), (0xAA29, 0xAA2E), (0xAA31, 0xAA32),
     (0xAA35, 0xAA36), (0xAA43, 0xAA43), (0xAA4C, 0xAA4C), (0xAA70, 0xAA70), (0xAA7C, 0xAA7C),
     (0xAAB0, 0xAAB0), (0xAAB2, 0xAAB4), (0xAAB7, 0xAAB8), (0xAABE, 0xAABF), (0xAAC1, 0xAAC1),
     (0xAADD, 0xAADD), (0xAAEC, 0xAAED), (0xAAF3, 0xAAF4), (0xAAF6, 0xAAF6), (0xAB5B, 0xAB5F),
     (0xAB69, 0xAB6B), (0xABE5, 0xABE5), (0xABE8, 0xABE8), (0xABED, 0xABED), (0xFB1E, 0xFB1E),
     (0xFBB2, 0xFBC2), (0xFE00, 0xFE0F), (0xFE13, 0xFE13), (0xFE20, 0xFE2F), (0xFE52, 0xFE52),
     (0xFE55, 0xFE55), (0xFEFF, 0xFEFF), (0xFF07, 0xFF07), (0xFF0E, 0xFF0E), (0xFF1A, 0xFF1A),
     (0xFF3E, 0xFF3E), (0xFF40, 0xFF40), (0xFF70, 0xFF70), (0xFF9E, 0xFF9F), (0xFFE3, 0xFFE3),
     (0xFFF9, 0xFFFB), (0x101FD, 0x101FD), (0x102E0, 0x102E0), (0x10376, 0x1037A),
     (0x10780, 0x10785), (0x10787, 0x107B0), (0x107B2, 0x107BA), (0x10A01, 0x10A03),
     (0x10A05, 0x10A06), (0x10A0C, 0x10A0F), (0x10A38, 0x10A3A), (0x10A3F, 0x10A3F),
     (0x10AE5, 0x10AE6), (0x10D24, 0x10D27), (0x10EAB, 0x10EAC), (0x10F46, 0x10F50),
     (0x10F82, 0x10F85), (0x11001, 0x11001), (0x11038, 0x11046), (0x11070, 0x11070),
     (0x11073, 0x11074), (0x1107F, 0x11081), (0x110B3, 0x110B6), (0x110B9, 0x110BA),
     (0x110BD, 0x110BD), (0x110C2, 0x110C2), (0x110CD, 0x110CD), (0x11100, 0x11102),
     (0x11127, 0x1112B), (0x1112D, 0x11134), (0x11173, 0x11173), (0x11180, 0x11181),
     (0x111B6, 0x111BE), (0x111C9, 0x111CC), (0x111CF, 0x111CF), (0x1122F, 0x11231),
     (0x11234, 0x11234), (0x11236, 0x11237), (0x1123E, 0x1123E), (0x112DF, 0x112DF),
     (0x112E3, 0x112EA), (0x11300, 0x11301), (0x1133B, 0x1133C), (0x11340, 0x11340),
     (0x11366, 0x1136C), (0x11370, 0x11374), (0x11438, 0x1143F), (0x11442, 0x11444),
     (0x11446, 0x11446), (0x1145E, 0x1145E), (0x114B3, 0x114B8), (0x114BA, 0x114BA),
     (0x114BF, 0x114C0), (0x114C2, 0x114C3), (0x115B2, 0x115B5), (0x115BC, 0x115BD),
     (0x115BF, 0x115C0), (0x115DC, 0x115DD), (0x11633, 0x1163A), (0x1163D, 0x1163D),
     (0x1163F, 0x11640), (0x116AB, 0x116AB), (0x116AD, 0x116AD), (0x116B0, 0x116B5),
     (0x116B7, 0x116B7), (0x1171D, 0x1171F), (0x11722, 0x11725), (0x11727, 0x1172B),
     (0x1182F, 0x11837), (0x11839, 0x1183A), (0x1193B, 0x1193C), (0x1193E, 0x1193E),
     (0x11943, 0x11943), (0x119D4, 0x119D7), (0x119DA, 0x119DB), (0x119E0, 0x119E0),
     (0x11A01, 0x11A0A), (0x11A33, 0x11A38), (0x11A3B, 0x11A3E), (0x11A47, 0x11A47),
     (0x11A51, 0x11A56), (0x11A59, 0x11A5B), (0x11A8A, 0x11A96), (0x11A98, 0x11A99),
     (0x11C30, 0x11C36), (0x11C38, 0x11C3D), (0x11C3F, 0x11C3F), (0x11C92, 0x11CA7),
     (0x11CAA, 0x11CB0), (0x11CB2, 0x11CB3), (0x11CB5, 0x11CB6), (0x11D31, 0x11D36),
     (0x11D3A, 0x11D3A), (0x11D3C, 0x11D3D), (0x11D3F, 0x11D45), (0x11D47, 0x11D47),
     (0x11D90, 0x11D91), (0x11D95, 0x11D95), (0x11D97, 0x11D97), (0x11EF3, 0x11EF4),
     (0x13430, 0x13438), (0x16AF0, 0x16AF4), (0x16B30, 0x16B36), (0x16B40, 0x16B43),
     (0x16F4F, 0x16F4F), (0x16F8F, 0x16F9F), (0x16FE0, 0x16FE1), (0x16FE3, 0x16FE4),
     (0x1AFF0, 0x1AFF3), (0x1AFF5, 0x1AFFB), (0x1AFFD, 0x1AFFE), (0x1BC9D, 0x1BC9E),
     (0x1BCA0, 0x1BCA3), (0x1CF00, 0x1CF2D), (0x1CF30, 0x1CF46), (0x1D167, 0x1D169),
     (0x1D173, 0x1D182), (0x1D185, 0x1D18B), (0x1D1AA, 0x1D1AD), (0x1D242, 0x1D244),
     (0x1DA00, 0x1DA36), (0x1DA3B, 0x1DA6C), (0x1DA75, 0x1DA75), (0x1DA84, 0x1DA84),
     (0x1DA9B, 0x1DA9F), (0x1DAA1, 0x1DAAF), (0x1E000, 0x1E006), (0x1E008, 0x1E018),
     (0x1E01B, 0x1E021), (0x1E023, 0x1E024), (0x1E026, 0x1E02A), (0x1E130, 0x1E13D),
     (0x1E2AE, 0x1E2AE), (0x1E2EC, 0x1E2EF), (0x1E8D0, 0x1E8D6), (0x1E944, 0x1E94B),
     (0x1F3FB, 0x1F3FF), (0xE0001, 0xE0001), (0xE0020, 0xE007F), (0xE0100, 0xE01EF)]"

definition cased_ranges :: "(nat \<times> nat) list" where
  "cased_ranges = [
     (0x41, 0x5A), (0x61, 0x7A), (0xAA, 0xAA), (0xB5, 0xB5), (0xBA, 0xBA), (0xC0, 0xD6),
     (0xD8, 0xF6), (0xF8, 0x1BA), (0x1BC, 0x1BF), (0x1C4, 0x293), (0x295, 0x2B8),
     (0x2C0, 0x2C1), (0x2E0, 0x2E4), (0x345, 0x345), (0x370, 0x373), (0x376, 0x377),
     (0x37A, 0x37D), (0x37F, 0x37F), (0x386, 0x386), (0x388, 0x38A), (0x38C, 0x38C),
     (0x38E, 0x3A1), (0x3A3, 0x3F5), (0x3F7, 0x481), (0x48A, 0x52F), (0x531, 0x556),
     (0x560, 0x588), (0x10A0, 0x10C5), (0x10C7, 0x10C7), (0x10CD, 0x10CD), (0x10D0, 0x10FA),
     (0x10FD, 0x10FF), (0x13A0, 0x13F5), (0x13F8, 0x13FD), (0x1C80, 0x1C88), (0x1C90, 0x1CBA),
     (0x1CBD, 0x1CBF), (0x1D00, 0x1DBF), (0x1E00, 0x1F15), (0x1F18, 0x1F1D), (0x1F20, 0x1F45),
     (0x1F48, 0x1F4D), (0x1F50, 0x1F57), (0x1F59, 0x1F59), (0x1F5B, 0x1F5B), (0x1F5D, 0x1F5D),
     (0x1F5F, 0x1F7D), (0x1F80, 0x1FB4), (0x1FB6, 0x1FBC), (0x1FBE, 0x1FBE), (0x1FC2, 0x1FC4),
     (0x1FC6, 0x1FCC), (0x1FD0, 0x1FD3), (0x1FD6, 0x1FDB), (0x1FE0, 0x1FEC), (0x1FF2, 0x1FF4),
     (0x1FF6, 0x1FFC), (0x2071, 0x2071), (0x207F, 0x207F), (0x2090, 0x209C), (0x2102, 0x2102),
     (0x2107, 0x2107), (0x210A, 0x2113), (0x2115, 0x2115), (0x2119, 0x211D), (0x2124, 0x2124),
     (0x2126, 0x2126), (0x2128, 0x2128), (0x212A, 0x212D), (0x212F, 0x2134), (0x2139, 0x2139),
     (0x213C, 0x213F), (0x2145, 0x2149), (0x214E, 0x214E), (0x2160, 0x217F), (0x2183, 0x2184),
     (0x24B6, 0x24E9), (0x2C00, 0x2CE4), (0x2CEB, 0x2CEE), (0x2CF2, 0x2CF3), (0x2D00, 0x2D25),
     (0x2D27, 0x2D27), (0x2D2D, 0x2D2D), (0xA640, 0xA66D), (0xA680, 0xA69D), (0xA722, 0xA787),
     (0xA78B, 0xA78E), (0xA790, 0xA7CA), (0xA7D0, 0xA7D1), (0xA7D3, 0xA7D3), (0xA7D5, 0xA7D9),
     (0xA7F5, 0xA7F6), (0xA7F8, 0xA7FA), (0xAB30, 0xAB5A), (0xAB5C, 0xAB68), (0xAB70, 0xABBF),
     (0xFB00, 0xFB06), (0xFB13, 0xFB17), (0xFF21, 0xFF3A), (0xFF41, 0xFF5A), (0x10400, 0x1044F),
     (0x104B0, 0x104D3), (0x104D8, 0x104FB), (0x10570, 0x1057A), (0x1057C, 0x1058A),
     (0x1058C, 0x10592), (0x10594, 0x10595), (0x10597, 0x105A1), (0x105A3, 0x105B1),
     (0x105B3, 0x105B9), (0x105BB, 0x105BC), (0x10780, 0x10780), (0x10783, 0x10785),
     (0x10787, 0x107B0), (0x107B2, 0x107BA), (0x10C80, 0x10CB2), (0x10CC0, 0x10CF2),
     (0x118A0, 0x118DF), (0x16E40, 0x16E7F), (0x1D400, 0x1D454), (0x1D456, 0x1D49C),
     (0x1D49E, 0x1D49F), (0x1D4A2, 0x1D4A2), (0x1D4A5, 0x1D4A6), (0x1D4A9, 0x1D4AC),
     (0x1D4AE, 0x1D4B9), (0x1D4BB, 0x1D4BB), (0x1D4BD, 0x1D4C3), (0x1D4C5, 0x1D505),
     (0x1D507, 0x1D50A), (0x1D50D, 0x1D514), (0x1D516, 0x1D51C), (0x1D51E, 0x1D539),
     (0x1D53B, 0x1D53E), (0x1D540, 0x1D544), (0x1D546, 0x1D546), (0x1D54A, 0x1D550),
     (0x1D552, 0x1D6A5), (0x1D6A8, 0x1D6C0), (0x1D6C2, 0x1D6DA), (0x1D6DC, 0x1D6FA),
     (0x1D6FC, 0x1D714), (0x1D716, 0x1D734), (0x1D736, 0x1D74E), (0x1D750, 0x1D76E),
     (0x1D770, 0x1D788), (0x1D78A, 0x1D7A8), (0x1D7AA, 0x1D7C2), (0x1D7C4, 0x1D7CB),
     (0x1DF00, 0x1DF09), (0x1DF0B, 0x1DF1E), (0x1E900, 0x1E943), (0x1F130, 0x1F149),
     (0x1F150, 0x1F169), (0x1F170, 0x1F189)]"

definition is_case_ignorable :: "cp \<Rightarrow> bool" where
  "is_case_ignorable c = in_ranges case_ignorable_ranges c"

definition is_cased :: "cp \<Rightarrow> bool" where
  "is_cased c = in_ranges cased_ranges c"

section \<open>The string methods the program calls\<close>

text \<open>
  \<open>s.lower()\<close>. A capital sigma becomes the final sigma U+03C2 when the nearest
  character before it that is not case-ignorable is cased and the nearest such
  character after it, if there is one, is not cased; otherwise it becomes U+03C3.
  \<open>seen\<close> holds the characters already read, the nearest first.
\<close>

definition final_sigma :: "str \<Rightarrow> str \<Rightarrow> bool" where
  "final_sigma seen rest =
     ((case dropWhile is_case_ignorable seen of [] \<Rightarrow> False | c # _ \<Rightarrow> is_cased c) \<and>
      (case dropWhile is_case_ignorable rest of [] \<Rightarrow> True | c # _ \<Rightarrow> \<not> is_cased c))"

fun lower_from :: "str \<Rightarrow> str \<Rightarrow> str" where
  "lower_from seen [] = []"
| "lower_from seen (c # cs) =
     (if c = 0x3A3 then [if final_sigma seen cs then 0x3C2 else 0x3C3] else lower_char c)
       @ lower_from (c # seen) cs"

definition lower :: "str \<Rightarrow> str" where
  "lower s = lower_from [] s"

text \<open>\<open>s[a:b]\<close> for \<open>0 \<le> a \<le> b\<close>; Python clips the slice to the text.\<close>

definition slice :: "str \<Rightarrow> nat \<Rightarrow> nat \<Rightarrow> str" where
  "slice s a b = take (b - a) (drop a s)"

text \<open>
  \<open>s.find(sub)\<close>: the least index where \<open>sub\<close> occurs; Python's -1 is \<open>None\<close>.
  \<open>find_from sub rest i\<close> looks in the rest of the text that begins at index \<open>i\<close>.
\<close>

fun find_from :: "str \<Rightarrow> str \<Rightarrow> nat \<Rightarrow> nat option" where
  "find_from sub [] i = (if sub = [] then Some i else None)"
| "find_from sub (c # cs) i =
     (if take (length sub) (c # cs) = sub then Some i else find_from sub cs (Suc i))"

definition str_find :: "str \<Rightarrow> str \<Rightarrow> nat option" where
  "str_find s sub = find_from sub s 0"

definition strip :: "str \<Rightarrow> str" where
  "strip s = rev (dropWhile isspace (rev (dropWhile isspace s)))"

text \<open>
  \<open>s.splitlines()\<close>: the lines without their terminators; CR LF is one terminator and
  a final terminator opens no further line. The first argument is the line being read.
\<close>

fun splitlines_from :: "str \<Rightarrow> str \<Rightarrow> str list" where
  "splitlines_from cur [] = (if cur = [] then [] else [cur])"
| "splitlines_from cur [c] = (if is_linebreak c then [cur] else [cur @ [c]])"
| "splitlines_from cur (c # d # cs) =
     (if c = 0x0D \<and> d = 0x0A then cur # splitlines_from [] cs
      else if is_linebreak c then cur # splitlines_from [] (d # cs)
      else splitlines_from (cur @ [c]) (d # cs))"

definition splitlines :: "str \<Rightarrow> str list" where
  "splitlines s = splitlines_from [] s"

text \<open>\<open>s.split()\<close>: the maximal runs of characters that are not white space.\<close>

fun split_from :: "str \<Rightarrow> str \<Rightarrow> str list" where
  "split_from cur [] = (if cur = [] then [] else [cur])"
| "split_from cur (c # cs) =
     (if isspace c then (if cur = [] then split_from [] cs else cur # split_from [] cs)
      else split_from (cur @ [c]) cs)"

definition split :: "str \<Rightarrow> str list" where
  "split s = split_from [] s"

fun join :: "str \<Rightarrow> str list \<Rightarrow> str" where
  "join sep [] = []"
| "join sep [x] = x"
| "join sep (x # y # ys) = x @ sep @ join sep (y # ys)"

text \<open>\<open>max(xs, key=k)\<close> on a non-empty list: the first element whose key is greatest.\<close>

fun max_from :: "('a \<Rightarrow> nat) \<Rightarrow> 'a \<Rightarrow> 'a list \<Rightarrow> 'a" where
  "max_from k best [] = best"
| "max_from k best (x # xs) = max_from k (if k best < k x then x else best) xs"

section \<open>Regular expressions as \<open>re\<close> matches them\<close>

text \<open>
  The patterns of the program use literals, character sets, the classes \<open>\d\<close> and
  \<open>\s\<close>, greedy repetition of a single-character item, sequence, alternation, an
  optional group, \<open>\b\<close> and one capturing group. \<open>re\<close> matches by backtracking:
  the alternatives of a pattern at a position are tried in a fixed order and the first
  one that lets the rest of the pattern match wins. \<open>rmatch\<close> lists the outcomes of
  a pattern from a state in that order, so the head of the list is the match \<open>re\<close>
  reports. A state is the position reached and the span of group 1, if it is set.
\<close>

datatype citem = Chr cp | Rng cp cp | CatDigit | CatSpace

datatype atom = Lit cp | In "citem list"

datatype regex =
    Eps
  | Atom atom
  | Rep atom nat "nat option"
  | Seq regex regex
  | Alt regex regex
  | Opt regex
  | WordB
  | Group regex

fun item_chars_cased :: "citem \<Rightarrow> bool" where
  "item_chars_cased (Chr p) = unicode_iscased p"
| "item_chars_cased (Rng a b) = list_ex unicode_iscased [a..<Suc b]"
| "item_chars_cased CatDigit = False"
| "item_chars_cased CatSpace = False"

text \<open>Membership of a character in a set item as written.\<close>

fun item_match :: "citem \<Rightarrow> cp \<Rightarrow> bool" where
  "item_match (Chr p) t = (t = p)"
| "item_match (Rng a b) t = (a \<le> t \<and> t \<le> b)"
| "item_match CatDigit t = isdecimal t"
| "item_match CatSpace t = isspace t"

text \<open>
  Under IGNORECASE a set with a cased member is compiled to the lower case of its
  members, together with their \<open>ignorecase_fixes\<close>, and is tested on the lower case
  of the text character.
\<close>

definition lowered :: "cp \<Rightarrow> cp list" where
  "lowered p = unicode_tolower p # ignorecase_fixes (unicode_tolower p)"

fun item_match_ic :: "citem \<Rightarrow> cp \<Rightarrow> bool" where
  "item_match_ic (Chr p) t = (t \<in> set (lowered p))"
| "item_match_ic (Rng a b) t = list_ex (\<lambda>p. t \<in> set (lowered p)) [a..<Suc b]"
| "item_match_ic CatDigit t = isdecimal t"
| "item_match_ic CatSpace t = isspace t"

fun atom_match :: "bool \<Rightarrow> atom \<Rightarrow> cp \<Rightarrow> bool" where
  "atom_match ic (Lit p) t =
     (if ic \<and> unicode_iscased p then unicode_tolower t \<in> set (lowered p) else t = p)"
| "atom_match ic (In items) t =
     (if ic \<and> list_ex item_chars_cased items
      then list_ex (\<lambda>it. item_match_ic it (unicode_tolower t)) items
      else list_ex (\<lambda>it. item_match it t) items)"

text \<open>\<open>\b\<close>: exactly one of the characters before and after the position is a word character.\<close>

definition at_boundary :: "str \<Rightarrow> nat \<Rightarrow> bool" where
  "at_boundary s i =
     (s \<noteq> [] \<and>
      ((0 < i \<and> i \<le> length s \<and> isword (s ! (i - 1))) \<noteq> (i < length s \<and> isword (s ! i))))"

text \<open>How many characters from position \<open>i\<close> on match the item, up to the bound.\<close>

definition count_run :: "bool \<Rightarrow> atom \<Rightarrow> str \<Rightarrow> nat \<Rightarrow> nat option \<Rightarrow> nat" where
  "count_run ic a s i bound =
     (let n = length (takeWhile (atom_match ic a) (drop i s))
      in case bound of None \<Rightarrow> n | Some b \<Rightarrow> min n b)"

type_synonym mstate = "nat \<times> (nat \<times> nat) option"

fun rmatch :: "bool \<Rightarrow> str \<Rightarrow> regex \<Rightarrow> mstate \<Rightarrow> mstate list" where
  "rmatch ic s Eps st = [st]"
| "rmatch ic s (Atom a) (i, g) =
     (if i < length s \<and> atom_match ic a (s ! i) then [(Suc i, g)] else [])"
| "rmatch ic s (Rep a lo hi) (i, g) =
     (let n = count_run ic a s i hi
      in if n < lo then [] else map (\<lambda>j. (i + j, g)) (rev [lo..<Suc n]))"
| "rmatch ic s (Seq r1 r2) st = concat (map (rmatch ic s r2) (rmatch ic s r1 st))"
| "rmatch ic s (Alt r1 r2) st = rmatch ic s r1 st @ rmatch ic s r2 st"
| "rmatch ic s (Opt r) st = rmatch ic s r st @ [st]"
| "rmatch ic s WordB (i, g) = (if at_boundary s i then [(i, g)] else [])"
| "rmatch ic s (Group r) (i, g) = map (\<lambda>(j, _). (j, Some (i, j))) (rmatch ic s r (i, g))"

record rematch =
  m_start :: nat
  m_end :: nat
  m_span1 :: "(nat \<times> nat) option"

text \<open>
  \<open>pattern.search(s, pos)\<close>: the pattern is tried at \<open>pos\<close>, then one character
  further on, up to the end of the text; the first position with an outcome gives the match.
\<close>

function search_from :: "bool \<Rightarrow> regex \<Rightarrow> str \<Rightarrow> nat \<Rightarrow> rematch option" where
  "search_from ic r s pos =
     (if length s < pos then None
      else case rmatch ic s r (pos, None) of
             [] \<Rightarrow> search_from ic r s (Suc pos)
           | (j, g) # _ \<Rightarrow> Some \<lparr>m_start = pos, m_end = j, m_span1 = g\<rparr>)"
  by pat_completeness auto
termination
  by (relation "measure (\<lambda>(ic, r, s, pos). Suc (length s) - pos)") auto

declare search_from.simps [simp del]

definition re_search :: "bool \<Rightarrow> regex \<Rightarrow> str \<Rightarrow> rematch option" where
  "re_search ic r s = search_from ic r s 0"

text \<open>\<open>m.group()\<close> and \<open>m.group(1)\<close>; the latter is \<open>None\<close> when group 1 took no part.\<close>

definition group0 :: "str \<Rightarrow> rematch \<Rightarrow> str" where
  "group0 s m = slice s (m_start m) (m_end m)"

definition group1 :: "str \<Rightarrow> rematch \<Rightarrow> str option" where
  "group1 s m = (case m_span1 m of None \<Rightarrow> None | Some (a, b) \<Rightarrow> Some (slice s a b))"

text \<open>
  \<open>re.finditer\<close>: the matches from left to right, each search starting where the
  previous match ended. After an empty match the scan moves on by one character.
\<close>

function finditer_from :: "bool \<Rightarrow> regex \<Rightarrow> str \<Rightarrow> nat \<Rightarrow> rematch list" where
  "finditer_from ic r s pos =
     (case search_from ic r s pos of
        None \<Rightarrow> []
      | Some m \<Rightarrow>
          m # (if m_start m < m_end m then finditer_from ic r s (m_end m)
               else if m_start m < length s then finditer_from ic r s (Suc (m_start m))
               else []))"
  by pat_completeness auto
termination
proof -
  have start: "pos \<le> m_start m \<and> m_start m \<le> length s"
    if "search_from ic r s pos = Some m" for ic r s pos m
    using that
  proof (induction ic r s pos rule: search_from.induct)
    case (1 ic r s pos)
    show ?case
    proof (cases "rmatch ic s r (pos, None)")
      case Nil
      with 1 show ?thesis
        by (cases "length s < pos") (auto simp: search_from.simps [of ic r s pos])
    next
      case (Cons st rest)
      with "1.prems" show ?thesis
        by (cases "length s < pos"; cases st) (auto simp: search_from.simps [of ic r s pos])
    qed
  qed
  show ?thesis
    by (relation "measure (\<lambda>(ic, r, s, pos). Suc (length s) - pos)")
       (auto dest!: start)
qed

declare finditer_from.simps [simp del]

definition finditer :: "bool \<Rightarrow> regex \<Rightarrow> str \<Rightarrow> rematch list" where
  "finditer ic r s = finditer_from ic r s 0"

text \<open>\<open>re.findall\<close> for a pattern without capturing groups: the matched substrings.\<close>

definition findall :: "bool \<Rightarrow> regex \<Rightarrow> str \<Rightarrow> str list" where
  "findall ic r s = map (group0 s) (finditer ic r s)"

text \<open>Writing patterns: a sequence of parts, a literal word, the classes.\<close>

definition cat :: "regex list \<Rightarrow> regex" where
  "cat rs = foldr Seq rs Eps"

definition word :: "string \<Rightarrow> regex" where
  "word w = cat (map (\<lambda>c. Atom (Lit (of_char c))) w)"

abbreviation digit :: atom where "digit \<equiv> In [CatDigit]"
abbreviation space :: atom where "space \<equiv> In [CatSpace]"

section \<open>The field extractors\<close>

text \<open>
  What the program can raise: \<open>AttributeError\<close> is what \<open>m.group(1).strip()\<close>
  raises when group 1 is \<open>None\<close>; \<open>Raised msg\<close> is an exception of the PDF library,
  with \<open>str(e) = msg\<close>.
\<close>

datatype exn = AttributeError | Raised str

fun exn_str :: "exn \<Rightarrow> str" where
  "exn_str AttributeError =
     [0x27] @ ustr ''NoneType'' @ [0x27] @ ustr '' object has no attribute '' @
     [0x27] @ ustr ''strip'' @ [0x27]"
| "exn_str (Raised msg) = msg"

subsection \<open>\<open>find_label_value\<close>\<close>

definition find_label_value :: "str \<Rightarrow> str \<Rightarrow> nat \<Rightarrow> str option" where
  "find_label_value text label max_chars =
     (let lo = lower text;
          lbl = lower label @ ustr '':''
      in case str_find lo lbl of
           None \<Rightarrow> None
         | Some i \<Rightarrow>
             (let start = i + length lbl;
                  snippet = slice text start (start + max_chars)
              in case List.find (\<lambda>line. strip line \<noteq> []) (splitlines snippet) of
                   Some line \<Rightarrow> Some (strip line)
                 | None \<Rightarrow>
                     (let r = strip (join (ustr '' '') (split snippet))
                      in if r = [] then None else Some r)))"

subsection \<open>\<open>extract_matricula\<close>\<close>

text \<open>
  \<^verbatim>\<open>Matr[ii']cula[:\s]*([\d\.\-\/]+)\<close> and \<^verbatim>\<open>Matr[ii']cula\s+([\d\.\-\/]+)\<close>, both
  with IGNORECASE; the second member of the first set is U+00ED (i with acute).
\<close>

definition matricula_label :: "regex list" where
  "matricula_label = [word ''Matr'', Atom (In [Chr 0x69, Chr 0xED]), word ''cula'']"

definition matricula_value :: regex where
  "matricula_value = Group (Rep (In [CatDigit, Chr 0x2E, Chr 0x2D, Chr 0x2F]) 1 None)"

definition pat_matricula :: regex where
  "pat_matricula = cat (matricula_label @ [Rep (In [Chr 0x3A, CatSpace]) 0 None, matricula_value])"

definition pat_matricula2 :: regex where
  "pat_matricula2 = cat (matricula_label @ [Rep space 1 None, matricula_value])"

text \<open>\<open>m.group(1).strip()\<close>\<close>

definition group1_strip :: "str \<Rightarrow> rematch \<Rightarrow> exn + str option" where
  "group1_strip s m =
     (case group1 s m of None \<Rightarrow> Inl AttributeError | Some g \<Rightarrow> Inr (Some (strip g)))"

definition extract_matricula :: "str \<Rightarrow> exn + str option" where
  "extract_matricula text =
     (case re_search True pat_matricula text of
        Some m \<Rightarrow> group1_strip text m
      | None \<Rightarrow>
          (case re_search True pat_matricula2 text of
             Some m2 \<Rightarrow> group1_strip text m2
           | None \<Rightarrow> Inr None))"

subsection \<open>\<open>extract_numero_processo\<close>\<close>

text \<open>
  \<^verbatim>\<open>Processo(?:\s*N[%o]|\s*N\.%|:)?\s*([0-9\/\.\-]{4,25})\<close> with IGNORECASE, where
  \<^verbatim>\<open>%\<close> stands for U+00BA (masculine ordinal indicator), and the token pattern
  \<^verbatim>\<open>\b\d{3,8}(?:/\d{2,4})?\b\<close>.
\<close>

definition pat_processo :: regex where
  "pat_processo = cat [word ''Processo'',
     Opt (Alt (cat [Rep space 0 None, Atom (Lit 0x4E), Atom (In [Chr 0xBA, Chr 0x6F])])
         (Alt (cat [Rep space 0 None, Atom (Lit 0x4E), Atom (Lit 0x2E), Atom (Lit 0xBA)])
              (Atom (Lit 0x3A)))),
     Rep space 0 None,
     Group (Rep (In [Rng 0x30 0x39, Chr 0x2F, Chr 0x2E, Chr 0x2D]) 4 (Some 25))]"

definition pat_token :: regex where
  "pat_token = cat [WordB, Rep digit 3 (Some 8),
     Opt (cat [Atom (Lit 0x2F), Rep digit 2 (Some 4)]), WordB]"

definition extract_numero_processo :: "str \<Rightarrow> exn + str option" where
  "extract_numero_processo text =
     (case re_search True pat_processo text of
        Some m \<Rightarrow> group1_strip text m
      | None \<Rightarrow>
          (let tokens = findall False pat_token text
           in if tokens \<noteq> [] then
                (case List.find (\<lambda>t. 0x2F \<in> set t) tokens of
                   Some t \<Rightarrow> Inr (Some t)
                 | None \<Rightarrow> Inr (Some (max_from length (hd tokens) (tl tokens))))
              else Inr None))"

subsection \<open>\<open>extract_last_date\<close>\<close>

text \<open>
  \<^verbatim>\<open>\b\d{1,2}\s+de\s+[a-z...]+\s+de\s+\d{4}\b\<close> with IGNORECASE, the set being a-z and
  U+00E7, U+00F5, U+00E9, U+00EA, U+00E1, U+00ED, U+00FA, U+00E2, U+00F3 (the accented
  letters of Portuguese month names, in the order of the source), and
  \<^verbatim>\<open>\b\d{2}/\d{2}/\d{4}\b\<close>.
\<close>

definition month_letters :: atom where
  "month_letters = In [Rng 0x61 0x7A, Chr 0xE7, Chr 0xF5, Chr 0xE9, Chr 0xEA, Chr 0xE1,
     Chr 0xED, Chr 0xFA, Chr 0xE2, Chr 0xF3]"

definition pat_date_long :: regex where
  "pat_date_long = cat [WordB, Rep digit 1 (Some 2), Rep space 1 None, word ''de'',
     Rep space 1 None, Rep month_letters 1 None, Rep space 1 None, word ''de'',
     Rep space 1 None, Rep digit 4 (Some 4), WordB]"

definition pat_date_num :: regex where
  "pat_date_num = cat [WordB, Rep digit 2 (Some 2), Atom (Lit 0x2F), Rep digit 2 (Some 2),
     Atom (Lit 0x2F), Rep digit 4 (Some 4), WordB]"

definition date_candidates :: "str \<Rightarrow> (nat \<times> str) list" where
  "date_candidates text =
     map (\<lambda>m. (m_start m, strip (group0 text m))) (finditer True pat_date_long text) @
     map (\<lambda>m. (m_start m, strip (group0 text m))) (finditer False pat_date_num text)"

definition extract_last_date :: "str \<Rightarrow> str option" where
  "extract_last_date text =
     (let candidates = date_candidates text
      in if candidates = [] then None
         else Some (snd (max_from fst (hd candidates) (tl candidates))))"

section \<open>The folder processor\<close>

text \<open>
  The PDF library is the environment: opening a path either raises or gives the pages,
  and a page's \<open>extract_text()\<close> either raises or gives a text or \<open>None\<close>.
\<close>

type_synonym page = "exn + str option"
type_synonym pdf_library = "str \<Rightarrow> exn + page list"

fun page_texts :: "page list \<Rightarrow> exn + str list" where
  "page_texts [] = Inr []"
| "page_texts (p # ps) =
     (case p of
        Inl e \<Rightarrow> Inl e
      | Inr t \<Rightarrow>
          (case page_texts ps of
             Inl e \<Rightarrow> Inl e
           | Inr ts \<Rightarrow> Inr ((case t of None \<Rightarrow> [] | Some x \<Rightarrow> x) # ts)))"

definition extract_text :: "pdf_library \<Rightarrow> str \<Rightarrow> exn + str" where
  "extract_text pdf_open path =
     (case pdf_open path of
        Inl e \<Rightarrow> Inl e
      | Inr pages \<Rightarrow>
          (case page_texts pages of
             Inl e \<Rightarrow> Inl e
           | Inr text_parts \<Rightarrow> Inr (join [0x0A] text_parts)))"

text \<open>
  A row is the dictionary the program appends, with its keys in insertion order (the
  order of the columns of the table); \<open>map_of row key\<close> is absent, or a string or
  \<open>None\<close>.
\<close>

type_synonym row = "(string \<times> str option) list"

text \<open>The body of the \<open>try\<close>: the text, then the four fields in the order of the source.\<close>

definition try_row :: "pdf_library \<Rightarrow> str \<Rightarrow> exn + row" where
  "try_row pdf_open p =
     (case extract_text pdf_open p of
        Inl e \<Rightarrow> Inl e
      | Inr txt \<Rightarrow>
          (let requerente = find_label_value txt (ustr ''Requerente'') 300
           in case extract_matricula txt of
                Inl e \<Rightarrow> Inl e
              | Inr matricula \<Rightarrow>
                  (case extract_numero_processo txt of
                     Inl e \<Rightarrow> Inl e
                   | Inr processo \<Rightarrow>
                       (let data_aut = extract_last_date txt
                        in Inr [(''processo'', processo), (''data_autuacao'', data_aut),
                                (''requerente'', requerente), (''matricula'', matricula)]))))"

text \<open>The \<open>except Exception as e\<close> branch.\<close>

definition error_row :: "exn \<Rightarrow> row" where
  "error_row e = [(''processo'', None), (''data_autuacao'', None), (''requerente'', None),
     (''matricula'', None), (''error'', Some (exn_str e))]"

fun process_loop :: "pdf_library \<Rightarrow> row list \<Rightarrow> str list \<Rightarrow> row list" where
  "process_loop pdf_open rows [] = rows"
| "process_loop pdf_open rows (p # ps) =
     process_loop pdf_open
       (rows @ [case try_row pdf_open p of Inr r \<Rightarrow> r | Inl e \<Rightarrow> error_row e]) ps"

text \<open>\<open>glob_pdf\<close> is what \<open>folder.glob("*.pdf")\<close> yields.\<close>

definition process_folder :: "pdf_library \<Rightarrow> str list \<Rightarrow> row list" where
  "process_folder pdf_open glob_pdf = (let pdfs = sort glob_pdf in process_loop pdf_open [] pdfs)"

section \<open>Evaluating the model on a given text\<close>

lemmas pats = pat_processo_def pat_token_def pat_matricula_def pat_matricula2_def
  matricula_label_def matricula_value_def pat_date_long_def pat_date_num_def
  month_letters_def cat_def word_def

lemmas engine = rmatch.simps(3) re_search_def search_from.simps group1_strip_def group1_def group0_def
  slice_def count_run_def at_boundary_def strip_def finditer_def finditer_from.simps
  findall_def str_find_def splitlines_def split_def lower_def date_candidates_def

lemmas chars = isspace_def isdecimal_def isword_def unicode_tolower_def unicode_iscased_def
  ignorecase_fixes_def lowered_def in_ranges_def is_linebreak_def lower_char_def

section \<open>The folder processor isolates the failure of a document\<close>

lemma process_loop_map:
  "process_loop pdf_open rows ps =
     rows @ map (\<lambda>p. case try_row pdf_open p of Inr r \<Rightarrow> r | Inl e \<Rightarrow> error_row e) ps"
  by (induction ps arbitrary: rows) simp_all

text \<open>
  A library for two files: opening \<open>a.pdf\<close> raises, \<open>b.pdf\<close> has a page with
  text and a page without.
\<close>

definition demo_library :: pdf_library where
  "demo_library path =
     (if path = ustr ''a.pdf'' then Inl (Raised (ustr ''No /Root object''))
      else Inr [Inr (Some (ustr ''Processo: 1234/2016'')), Inr None])"

lemma sort_demo: "sort [ustr ''b.pdf'', ustr ''a.pdf''] = [ustr ''a.pdf'', ustr ''b.pdf'']"
  by code_simp

lemma try_row_demo_a:
  "try_row demo_library (ustr ''a.pdf'') = Inl (Raised (ustr ''No /Root object''))"
  by (simp add: try_row_def extract_text_def demo_library_def)

lemma extract_text_demo_b:
  "extract_text demo_library (ustr ''b.pdf'') = Inr (ustr ''Processo: 1234/2016'' @ [0x0A])"
  by (simp add: extract_text_def demo_library_def ustr_def)

lemma try_row_demo_b:
  "try_row demo_library (ustr ''b.pdf'') =
     Inr [(''processo'', Some (ustr ''1234/2016'')), (''data_autuacao'', None),
          (''requerente'', None), (''matricula'', None)]"
  unfolding try_row_def extract_text_demo_b
  by (simp add: extract_numero_processo_def extract_matricula_def extract_last_date_def
      find_label_value_def pats engine chars ustr_def)

text \<open>
  C1. The table has one row per document, in the sorted order of the paths. Whenever the
  body of the \<open>try\<close> raises for a document (while its text is obtained or while its
  fields are extracted), that document's row has the four data fields \<open>None\<close> and
  \<open>error\<close> set to \<open>str(e)\<close>; the rows of the other documents are the rows their
  extraction gives, so the run goes on after a failure.
\<close>

theorem process_folder_isolates_failures:
  "length (process_folder pdf_open glob_pdf) = length glob_pdf \<and>
   (\<forall>i<length glob_pdf.
      (\<forall>e. try_row pdf_open (sort glob_pdf ! i) = Inl e \<longrightarrow>
         process_folder pdf_open glob_pdf ! i =
           [(''processo'', None), (''data_autuacao'', None), (''requerente'', None),
            (''matricula'', None), (''error'', Some (exn_str e))]) \<and>
      (\<forall>r. try_row pdf_open (sort glob_pdf ! i) = Inr r \<longrightarrow>
         process_folder pdf_open glob_pdf ! i = r))"
  by (simp add: process_folder_def process_loop_map error_row_def)

theorem process_folder_isolates_failures_witness:
  "length (process_folder demo_library [ustr ''b.pdf'', ustr ''a.pdf'']) = 2 \<and>
   process_folder demo_library [ustr ''b.pdf'', ustr ''a.pdf''] ! 0 =
     [(''processo'', None), (''data_autuacao'', None), (''requerente'', None),
      (''matricula'', None), (''error'', Some (ustr ''No /Root object''))] \<and>
   process_folder demo_library [ustr ''b.pdf'', ustr ''a.pdf''] ! 1 =
     [(''processo'', Some (ustr ''1234/2016'')), (''data_autuacao'', None),
      (''requerente'', None), (''matricula'', None)]"
proof -
  note th = process_folder_isolates_failures [of demo_library "[ustr ''b.pdf'', ustr ''a.pdf'']",
      unfolded sort_demo]
  from th have len: "length (process_folder demo_library [ustr ''b.pdf'', ustr ''a.pdf'']) = 2"
    by simp
  from th have r0: "process_folder demo_library [ustr ''b.pdf'', ustr ''a.pdf''] ! 0 =
     [(''processo'', None), (''data_autuacao'', None), (''requerente'', None),
      (''matricula'', None), (''error'', Some (exn_str (Raised (ustr ''No /Root object''))))]"
    using try_row_demo_a by force
  from th have r1: "process_folder demo_library [ustr ''b.pdf'', ustr ''a.pdf''] ! 1 =
     [(''processo'', Some (ustr ''1234/2016'')), (''data_autuacao'', None),
      (''requerente'', None), (''matricula'', None)]"
    using try_row_demo_b by force
  from len r0 r1 show ?thesis by simp
qed

section \<open>Properties of the matcher\<close>

lemma count_run_bound: "i + count_run ic a s i hi \<le> max i (length s)"
proof -
  have "length (takeWhile (atom_match ic a) (drop i s)) \<le> length s - i"
    using length_takeWhile_le [of "atom_match ic a" "drop i s"] by simp
  then show ?thesis
    by (auto simp: count_run_def Let_def split: option.splits)
qed

lemma count_run_match:
  assumes "k < count_run ic a s i hi"
  shows "i + k < length s \<and> atom_match ic a (s ! (i + k))"
proof -
  let ?t = "takeWhile (atom_match ic a) (drop i s)"
  from assms have k: "k < length ?t"
    by (auto simp: count_run_def Let_def split: option.splits)
  then have "?t ! k \<in> set ?t" by simp
  then have "atom_match ic a (?t ! k)" by (auto dest: set_takeWhileD)
  moreover have "?t ! k = drop i s ! k" using k by (rule takeWhile_nth)
  moreover have "k < length (drop i s)"
    using k length_takeWhile_le [of "atom_match ic a" "drop i s"] by simp
  ultimately show ?thesis by simp
qed

lemma count_run_hi: "count_run ic a s i (Some b) \<le> b"
  by (simp add: count_run_def)

lemma in_rmatch_Rep:
  "(j, g') \<in> set (rmatch ic s (Rep a lo hi) (i, g)) \<longleftrightarrow>
     g' = g \<and> i + lo \<le> j \<and> j \<le> i + count_run ic a s i hi"
proof -
  let ?n = "count_run ic a s i hi"
  have "set (rmatch ic s (Rep a lo hi) (i, g)) = (\<lambda>k. (i + k, g)) ` {lo..?n}"
    by (auto simp: Let_def)
  moreover have "(j, g') \<in> (\<lambda>k. (i + k, g)) ` {lo..?n} \<longleftrightarrow> g' = g \<and> i + lo \<le> j \<and> j \<le> i + ?n"
  proof
    assume "(j, g') \<in> (\<lambda>k. (i + k, g)) ` {lo..?n}"
    then show "g' = g \<and> i + lo \<le> j \<and> j \<le> i + ?n" by auto
  next
    assume r: "g' = g \<and> i + lo \<le> j \<and> j \<le> i + ?n"
    then have "j - i \<in> {lo..?n}" and "(j, g') = (i + (j - i), g)" by auto
    then show "(j, g') \<in> (\<lambda>k. (i + k, g)) ` {lo..?n}" by (rule rev_image_eqI)
  qed
  ultimately show ?thesis by simp
qed

declare rmatch.simps(3) [simp del]

lemma in_rmatch_Seq:
  "x \<in> set (rmatch ic s (Seq r1 r2) st) \<longleftrightarrow>
     (\<exists>y \<in> set (rmatch ic s r1 st). x \<in> set (rmatch ic s r2 y))"
  by auto

lemma rmatch_mono:
  "(j, g') \<in> set (rmatch ic s r (i, g)) \<Longrightarrow> i \<le> j \<and> j \<le> max i (length s)"
proof (induction r arbitrary: i g j g')
  case (Rep a lo hi)
  from Rep [unfolded in_rmatch_Rep] show ?case
    using count_run_bound [of i ic a s hi] by auto
next
  case (Seq r1 r2)
  from Seq.prems obtain k h where 1: "(k, h) \<in> set (rmatch ic s r1 (i, g))"
    and 2: "(j, g') \<in> set (rmatch ic s r2 (k, h))"
    by auto
  from Seq.IH(1) [OF 1] Seq.IH(2) [OF 2] show ?case by auto
next
  case (Group r)
  then show ?case by fastforce
qed (auto split: if_splits)

lemma rmatch_cat_Cons:
  "rmatch ic s (cat (r # rs)) st = concat (map (rmatch ic s (cat rs)) (rmatch ic s r st))"
  by (simp add: cat_def)

lemma rmatch_cat_Nil: "rmatch ic s (cat []) st = [st]"
  by (simp add: cat_def)

lemma concat_map_concat:
  "concat (map f (concat xss)) = concat (map (\<lambda>xs. concat (map f xs)) xss)"
  by (induction xss) simp_all

lemma rmatch_cat_append:
  "rmatch ic s (cat (rs @ rs')) st =
     concat (map (rmatch ic s (cat rs')) (rmatch ic s (cat rs) st))"
proof (induction rs arbitrary: st)
  case Nil
  then show ?case by (simp add: rmatch_cat_Nil)
next
  case (Cons r rs)
  have "rmatch ic s (cat (rs @ rs')) =
      (\<lambda>st. concat (map (rmatch ic s (cat rs')) (rmatch ic s (cat rs) st)))"
    by (rule ext) (rule Cons.IH)
  then show ?case
    by (simp add: rmatch_cat_Cons concat_map_concat comp_def)
qed


lemma search_from_Some:
  assumes "search_from ic r s pos = Some m"
  shows "pos \<le> m_start m \<and> m_start m \<le> length s \<and>
         rmatch ic s r (m_start m, None) \<noteq> [] \<and>
         hd (rmatch ic s r (m_start m, None)) = (m_end m, m_span1 m) \<and>
         (\<forall>i. pos \<le> i \<and> i < m_start m \<longrightarrow> rmatch ic s r (i, None) = [])"
  using assms
proof (induction ic r s pos rule: search_from.induct)
  case (1 ic r s pos)
  from "1.prems" have le: "\<not> length s < pos"
    by (auto simp: search_from.simps [of ic r s pos] split: if_splits)
  show ?case
  proof (cases "rmatch ic s r (pos, None)")
    case Nil
    with "1.prems" le have "search_from ic r s (Suc pos) = Some m"
      by (simp add: search_from.simps [of ic r s pos])
    note ih = "1.IH" [OF le Nil this]
    have "rmatch ic s r (i, None) = []" if "pos \<le> i" and "i < m_start m" for i
    proof (cases "i = pos")
      case True
      with Nil show ?thesis by simp
    next
      case False
      with that have "Suc pos \<le> i" by simp
      with ih that show ?thesis by blast
    qed
    with ih show ?thesis by auto
  next
    case (Cons st rest)
    obtain j g where st: "st = (j, g)" by (cases st)
    with "1.prems" le Cons have "m = \<lparr>m_start = pos, m_end = j, m_span1 = g\<rparr>"
      by (simp add: search_from.simps [of ic r s pos])
    with le Cons st show ?thesis by auto
  qed
qed

lemma search_from_None:
  "search_from ic r s pos = None \<longleftrightarrow>
     (\<forall>i. pos \<le> i \<and> i \<le> length s \<longrightarrow> rmatch ic s r (i, None) = [])"
proof (induction ic r s pos rule: search_from.induct)
  case (1 ic r s pos)
  show ?case
  proof (cases "length s < pos")
    case True
    then show ?thesis by (auto simp: search_from.simps [of ic r s pos])
  next
    case le: False
    show ?thesis
    proof (cases "rmatch ic s r (pos, None)")
      case Nil
      have "(\<forall>i. pos \<le> i \<and> i \<le> length s \<longrightarrow> rmatch ic s r (i, None) = []) \<longleftrightarrow>
            (\<forall>i. Suc pos \<le> i \<and> i \<le> length s \<longrightarrow> rmatch ic s r (i, None) = [])"
        using Nil by (metis Suc_leI le_less Suc_leD)
      with "1.IH" [OF le Nil] le Nil show ?thesis
        by (simp add: search_from.simps [of ic r s pos])
    next
      case (Cons st rest)
      with le show ?thesis
        by (cases st) (auto simp: search_from.simps [of ic r s pos])
    qed
  qed
qed

lemma search_from_first:
  assumes "rmatch ic s r (i, None) = (j, g) # rest" and "pos \<le> i" and "i \<le> length s"
    and "\<forall>k. pos \<le> k \<and> k < i \<longrightarrow> rmatch ic s r (k, None) = []"
  shows "search_from ic r s pos = Some \<lparr>m_start = i, m_end = j, m_span1 = g\<rparr>"
  using assms
proof (induction ic r s pos rule: search_from.induct)
  case (1 ic r s pos)
  from "1.prems" have le: "\<not> length s < pos" by simp
  show ?case
  proof (cases "pos = i")
    case True
    with "1.prems" le show ?thesis by (simp add: search_from.simps [of ic r s i])
  next
    case False
    with "1.prems" have Nil: "rmatch ic s r (pos, None) = []" and "Suc pos \<le> i" by auto
    with "1.IH" [OF le Nil] "1.prems" le show ?thesis
      by (simp add: search_from.simps [of ic r s pos])
  qed
qed

lemma finditer_from_mem:
  "m \<in> set (finditer_from ic r s pos) \<Longrightarrow> \<exists>p. pos \<le> p \<and> search_from ic r s p = Some m"
proof (induction ic r s pos rule: finditer_from.induct)
  case (1 ic r s pos)
  show ?case
  proof (cases "search_from ic r s pos")
    case None
    with "1.prems" show ?thesis by (simp add: finditer_from.simps [of ic r s pos])
  next
    case (Some m0)
    note st = search_from_Some [OF Some]
    show ?thesis
    proof (cases "m = m0")
      case True
      with Some show ?thesis by auto
    next
      case False
      show ?thesis
      proof (cases "m_start m0 < m_end m0")
        case True
        with "1.prems" Some False have "m \<in> set (finditer_from ic r s (m_end m0))"
          by (simp add: finditer_from.simps [of ic r s pos])
        from "1.IH"(1) [OF Some True this] st True show ?thesis
          by (meson le_trans less_imp_le)
      next
        case nt: False
        with "1.prems" Some False have lt: "m_start m0 < length s"
          and "m \<in> set (finditer_from ic r s (Suc (m_start m0)))"
          by (auto simp: finditer_from.simps [of ic r s pos] split: if_splits)
        from "1.IH"(2) [OF Some nt lt this(2)] st show ?thesis
          by (meson Suc_leD le_trans)
      qed
    qed
  qed
qed

lemma finditer_Nil: "finditer ic r s = [] \<longleftrightarrow> re_search ic r s = None"
  by (simp add: finditer_def re_search_def finditer_from.simps [of ic r s 0] split: option.splits)

text \<open>Every match that \<open>finditer\<close> reports is the first outcome of the pattern at its start.\<close>

lemma finditer_mem:
  assumes "m \<in> set (finditer ic r s)"
  shows "m_start m \<le> length s \<and> rmatch ic s r (m_start m, None) \<noteq> [] \<and>
         (m_end m, m_span1 m) \<in> set (rmatch ic s r (m_start m, None))"
proof -
  from assms obtain p where "search_from ic r s p = Some m"
    unfolding finditer_def by (blast dest: finditer_from_mem)
  from search_from_Some [OF this] show ?thesis
    by (metis hd_in_set)
qed

lemma re_search_mem:
  assumes "re_search ic r s = Some m"
  shows "m_start m \<le> length s \<and> (m_end m, m_span1 m) \<in> set (rmatch ic s r (m_start m, None))"
  using search_from_Some [OF assms [unfolded re_search_def]] by (metis hd_in_set)

section \<open>Slices, stripping and the character classes\<close>

lemma length_slice: "j \<le> length s \<Longrightarrow> length (slice s i j) = j - i"
  by (simp add: slice_def)

lemma nth_slice: "j \<le> length s \<Longrightarrow> k < j - i \<Longrightarrow> slice s i j ! k = s ! (i + k)"
  by (simp add: slice_def)

lemma set_slice:
  assumes "j \<le> length s" and "c \<in> set (slice s i j)"
  shows "\<exists>k. i \<le> k \<and> k < j \<and> c = s ! k"
proof -
  from assms(2) obtain n where n: "n < length (slice s i j)" and c: "c = slice s i j ! n"
    by (auto simp: in_set_conv_nth)
  from n assms(1) have "n < j - i" by (simp add: length_slice)
  with c assms(1) have "c = s ! (i + n)" "i \<le> i + n" "i + n < j"
    by (auto simp: nth_slice)
  then show ?thesis by blast
qed

lemma slice_append: "i \<le> k \<Longrightarrow> k \<le> j \<Longrightarrow> slice s i j = slice s i k @ slice s k j"
proof -
  assume a: "i \<le> k" "k \<le> j"
  then have "j - i = (k - i) + (j - k)" by simp
  then have "take (j - i) (drop i s) = take (k - i) (drop i s) @ take (j - k) (drop (k - i) (drop i s))"
    by (simp only: take_add)
  with a show ?thesis by (simp add: slice_def)
qed

lemma slice_single: "k < length s \<Longrightarrow> slice s k (Suc k) = [s ! k]"
  by (simp add: slice_def take_Suc_conv_app_nth Cons_nth_drop_Suc [symmetric])

lemma hd_slice: "i < j \<Longrightarrow> j \<le> length s \<Longrightarrow> hd (slice s i j) = s ! i"
  by (simp add: slice_def hd_drop_conv_nth)

lemma last_slice: "i < j \<Longrightarrow> j \<le> length s \<Longrightarrow> last (slice s i j) = s ! (j - 1)"
proof -
  assume a: "i < j" "j \<le> length s"
  then have "slice s i j \<noteq> []" by (simp add: slice_def)
  then have "last (slice s i j) = slice s i j ! (length (slice s i j) - 1)"
    by (rule last_conv_nth)
  also have "\<dots> = s ! (i + (j - i - 1))"
    using a by (simp add: length_slice nth_slice)
  finally show ?thesis using a by simp
qed

text \<open>A value is \<open>stripped\<close> when it is not empty and neither begins nor ends with white space.\<close>

definition stripped :: "str \<Rightarrow> bool" where
  "stripped v \<longleftrightarrow> v \<noteq> [] \<and> \<not> isspace (hd v) \<and> \<not> isspace (last v)"

lemma strip_stripped:
  assumes "strip x \<noteq> []"
  shows "stripped (strip x)"
proof -
  let ?y = "dropWhile isspace x"
  let ?z = "dropWhile isspace (rev ?y)"
  from assms have z: "?z \<noteq> []" by (simp add: strip_def)
  then have y: "?y \<noteq> []" by (auto dest: set_dropWhileD)
  from z have "\<not> isspace (hd ?z)" by (metis hd_dropWhile)
  then have l: "\<not> isspace (last (strip x))"
    using z by (simp add: strip_def last_rev)
  from y have hy: "\<not> isspace (hd ?y)" by (metis hd_dropWhile)
  from z obtain c where "c \<in> set (rev ?y)" "\<not> isspace c"
    by (metis dropWhile_eq_Nil_conv)
  then have "last ?z = last (rev ?y)" by (rule dropWhile_last)
  then have "hd (strip x) = hd ?y"
    using z y by (simp add: strip_def hd_rev last_rev)
  with hy l assms show ?thesis by (simp add: stripped_def)
qed

lemma strip_nonempty:
  assumes "c \<in> set x" and "\<not> isspace c"
  shows "strip x \<noteq> []"
proof -
  from assms have "dropWhile isspace x \<noteq> []" by auto
  then have "\<not> isspace (hd (dropWhile isspace x))" by (metis hd_dropWhile)
  moreover have "hd (dropWhile isspace x) \<in> set (rev (dropWhile isspace x))"
    using \<open>dropWhile isspace x \<noteq> []\<close> by simp
  ultimately have "dropWhile isspace (rev (dropWhile isspace x)) \<noteq> []"
    by (metis dropWhile_eq_Nil_conv)
  then show ?thesis by (simp add: strip_def)
qed

lemma strip_id:
  assumes "stripped x"
  shows "strip x = x"
proof -
  from assms have x: "x \<noteq> []" "\<not> isspace (hd x)" "\<not> isspace (last x)"
    by (simp_all add: stripped_def)
  then have 1: "dropWhile isspace x = x" by (simp add: dropWhile_eq_self_iff)
  from x have "\<not> isspace (hd (rev x))" by (simp add: hd_rev)
  then have "dropWhile isspace (rev x) = rev x" by (simp add: dropWhile_eq_self_iff)
  with 1 show ?thesis by (simp add: strip_def)
qed

lemma stripped_no_space:
  "v \<noteq> [] \<Longrightarrow> \<forall>c\<in>set v. \<not> isspace c \<Longrightarrow> stripped v"
  by (simp add: stripped_def)

lemma space_not_decimal: "isspace c \<Longrightarrow> \<not> isdecimal c"
  by (auto simp: isspace_def isdecimal_def decimal_ranges_def in_ranges_def)

lemma digit_match [simp]: "atom_match ic digit c = isdecimal c"
  by simp

lemma space_match [simp]: "atom_match ic space c = isspace c"
  by simp

lemma matricula_class:
  "atom_match True (In [CatDigit, Chr 0x2E, Chr 0x2D, Chr 0x2F]) c \<longleftrightarrow>
     isdecimal c \<or> c = 0x2E \<or> c = 0x2D \<or> c = 0x2F"
  by (auto simp: unicode_iscased_def in_ranges_def)

lemma processo_class:
  "atom_match True (In [Rng 0x30 0x39, Chr 0x2F, Chr 0x2E, Chr 0x2D]) c \<longleftrightarrow>
     (0x30 \<le> c \<and> c \<le> 0x39) \<or> c = 0x2F \<or> c = 0x2E \<or> c = 0x2D"
  by (auto simp: unicode_iscased_def in_ranges_def)

lemma colon_space_class:
  "atom_match True (In [Chr 0x3A, CatSpace]) c \<longleftrightarrow> c = 0x3A \<or> isspace c"
  by (auto simp: unicode_iscased_def in_ranges_def)

lemma max_from_mem: "max_from k best xs \<in> set (best # xs)"
  by (induction xs arbitrary: best) auto

section \<open>What the patterns of the program can match\<close>

lemma rmatch_cat_single: "rmatch ic s (cat [r]) st = rmatch ic s r st"
proof -
  have "rmatch ic s Eps = (\<lambda>st. [st])" by (rule ext) simp
  then show ?thesis by (simp add: cat_def)
qed

text \<open>A pattern that ends with group 1 around a repeated item.\<close>

lemma cat_group_rep:
  assumes "(j, g) \<in> set (rmatch ic s (cat (rs @ [Group (Rep a lo hi)])) st)"
  shows "\<exists>b. g = Some (b, j) \<and> b + lo \<le> j \<and>
           (\<forall>k. b \<le> k \<and> k < j \<longrightarrow> k < length s \<and> atom_match ic a (s ! k))"
proof -
  from assms obtain b h where "(j, g) \<in> set (rmatch ic s (Group (Rep a lo hi)) (b, h))"
    by (auto simp: rmatch_cat_append rmatch_cat_single)
  then have g: "g = Some (b, j)" and r: "(j, h) \<in> set (rmatch ic s (Rep a lo hi) (b, h))"
    by (auto simp: in_rmatch_Rep)
  from r have lo: "b + lo \<le> j" and hi: "j \<le> b + count_run ic a s b hi"
    by (simp_all add: in_rmatch_Rep)
  have "k < length s \<and> atom_match ic a (s ! k)" if "b \<le> k" "k < j" for k
  proof -
    from that hi have "k - b < count_run ic a s b hi" by simp
    from count_run_match [OF this] that show ?thesis by simp
  qed
  with g lo show ?thesis by blast
qed

lemma group1_strip_value:
  assumes m: "(m_end m, m_span1 m) \<in> set (rmatch ic s (cat (rs @ [Group (Rep a lo hi)])) st)"
    and lo: "0 < lo"
    and cls: "\<And>c. atom_match ic a c \<Longrightarrow> \<not> isspace c"
  shows "\<exists>v. group1_strip s m = Inr (Some v) \<and> stripped v \<and> (\<forall>c\<in>set v. atom_match ic a c)"
proof -
  from cat_group_rep [OF m] obtain b where g: "m_span1 m = Some (b, m_end m)"
    and b: "b + lo \<le> m_end m"
    and k: "\<And>k. b \<le> k \<Longrightarrow> k < m_end m \<Longrightarrow> k < length s \<and> atom_match ic a (s ! k)"
    by blast
  let ?v = "slice s b (m_end m)"
  from b lo have "b \<le> m_end m - 1" and "m_end m - 1 < m_end m" by simp_all
  from k [OF this] have e: "m_end m \<le> length s" by linarith
  from b lo e have ne: "?v \<noteq> []" by (simp add: slice_def)
  have all: "\<forall>c\<in>set ?v. atom_match ic a c"
    using set_slice [OF e] k by blast
  with cls ne have "stripped ?v" by (auto intro: stripped_no_space)
  then have "strip ?v = ?v" by (rule strip_id)
  with g \<open>stripped ?v\<close> all show ?thesis
    by (simp add: group1_strip_def group1_def)
qed

text \<open>A pattern that begins with \<open>\b\<close> and a repeated item.\<close>

lemma cat_wordb_rep_first:
  assumes "(j, g) \<in> set (rmatch ic s (cat (WordB # Rep a lo hi # rs)) (i, h))" and "0 < lo"
  shows "i < j \<and> i < length s \<and> atom_match ic a (s ! i)"
proof -
  from assms(1) obtain k where k: "(k, h) \<in> set (rmatch ic s (Rep a lo hi) (i, h))"
    and j: "(j, g) \<in> set (rmatch ic s (cat rs) (k, h))"
    by (auto simp: rmatch_cat_Cons in_rmatch_Rep split: if_splits)
  from k assms(2) have "0 < count_run ic a s i hi" "i < k"
    by (auto simp: in_rmatch_Rep)
  with count_run_match [of 0 ic a s i hi] rmatch_mono [OF j] show ?thesis
    by simp
qed

text \<open>A pattern that ends with a repeated item and \<open>\b\<close>.\<close>

lemma cat_rep_wordb_last:
  assumes "(j, g) \<in> set (rmatch ic s (cat (rs @ [Rep a lo hi, WordB])) st)" and "0 < lo"
  shows "0 < j \<and> j \<le> length s \<and> atom_match ic a (s ! (j - 1))"
proof -
  from assms(1) obtain b h where "(j, g) \<in> set (rmatch ic s (cat [Rep a lo hi, WordB]) (b, h))"
    by (auto simp: rmatch_cat_append)
  then have r: "(j, h) \<in> set (rmatch ic s (Rep a lo hi) (b, h))"
    by (auto simp: rmatch_cat_Cons rmatch_cat_Nil in_rmatch_Rep split: if_splits)
  then have lo: "b + lo \<le> j" and hi: "j \<le> b + count_run ic a s b hi"
    by (simp_all add: in_rmatch_Rep)
  with assms(2) have "j - 1 - b < count_run ic a s b hi" by simp
  from count_run_match [OF this] lo assms(2) show ?thesis by auto
qed

section \<open>Tokens and date matches\<close>

lemma in_rmatch_cat_Cons:
  "x \<in> set (rmatch ic s (cat (r # rs)) st) \<longleftrightarrow>
     (\<exists>y\<in>set (rmatch ic s r st). x \<in> set (rmatch ic s (cat rs) y))"
  by (simp add: rmatch_cat_Cons)

lemma in_rmatch_cat_Nil: "x \<in> set (rmatch ic s (cat []) st) \<longleftrightarrow> x = st"
  by (simp add: rmatch_cat_Nil)

lemma in_rmatch_WordB:
  "x \<in> set (rmatch ic s WordB st) \<longleftrightarrow> x = st \<and> at_boundary s (fst st)"
  by (cases st) auto

lemma in_rmatch_Atom:
  "x \<in> set (rmatch ic s (Atom a) st) \<longleftrightarrow>
     x = (Suc (fst st), snd st) \<and> fst st < length s \<and> atom_match ic a (s ! fst st)"
  by (cases st) auto

lemma in_rmatch_Opt:
  "x \<in> set (rmatch ic s (Opt r) st) \<longleftrightarrow> x \<in> set (rmatch ic s r st) \<or> x = st"
  by auto

lemma in_rmatch_Alt:
  "x \<in> set (rmatch ic s (Alt r1 r2) st) \<longleftrightarrow>
     x \<in> set (rmatch ic s r1 st) \<or> x \<in> set (rmatch ic s r2 st)"
  by auto

lemma in_rmatch_Rep':
  "x \<in> set (rmatch ic s (Rep a lo hi) st) \<longleftrightarrow>
     snd x = snd st \<and> fst st + lo \<le> fst x \<and> fst x \<le> fst st + count_run ic a s (fst st) hi"
  by (cases x; cases st) (simp add: in_rmatch_Rep)

lemmas in_rmatch = in_rmatch_cat_Cons in_rmatch_cat_Nil in_rmatch_WordB in_rmatch_Atom
  in_rmatch_Opt in_rmatch_Alt

lemma decimal_not_space: "isdecimal c \<Longrightarrow> \<not> isspace c"
  using space_not_decimal by blast

definition digits :: "nat \<Rightarrow> nat \<Rightarrow> str \<Rightarrow> bool" where
  "digits lo hi a \<longleftrightarrow> lo \<le> length a \<and> length a \<le> hi \<and> (\<forall>c\<in>set a. isdecimal c)"

text \<open>3 to 8 digits, optionally followed by \<open>/\<close> and 2 to 4 digits.\<close>

definition token_shaped :: "str \<Rightarrow> bool" where
  "token_shaped t \<longleftrightarrow>
     (\<exists>a. digits 3 8 a \<and> (t = a \<or> (\<exists>b. digits 2 4 b \<and> t = a @ [0x2F] @ b)))"

lemma rep_digits:
  assumes "(k, g') \<in> set (rmatch ic s (Rep digit lo (Some hi)) (i, g))"
  shows "g' = g \<and> i \<le> k \<and> k \<le> max i (length s) \<and> (0 < lo \<longrightarrow> k \<le> length s) \<and> 
         (k \<le> length s \<longrightarrow> digits lo hi (slice s i k))"
proof -
  from assms have g: "g' = g" and lo: "i + lo \<le> k" and hi: "k \<le> i + count_run ic digit s i (Some hi)"
    by (simp_all add: in_rmatch_Rep)
  have b: "k \<le> max i (length s)"
    using hi count_run_bound [of i ic digit s "Some hi"] by simp
  have d: "isdecimal (s ! n) \<and> n < length s" if "i \<le> n" "n < k" for n
  proof -
    from that hi have "n - i < count_run ic digit s i (Some hi)" by simp
    from count_run_match [OF this] that show ?thesis by simp
  qed
  have l: "0 < lo \<longrightarrow> k \<le> length s"
  proof
    assume "0 < lo"
    with lo have "i \<le> k - 1" "k - 1 < k" by simp_all
    from d [OF this] show "k \<le> length s" by linarith
  qed
  have "digits lo hi (slice s i k)" if k: "k \<le> length s"
  proof -
    have "\<forall>c\<in>set (slice s i k). isdecimal c"
      using set_slice [OF k] d by blast
    moreover have "length (slice s i k) = k - i" using k by (rule length_slice)
    moreover have "k - i \<le> hi" using hi count_run_hi [of ic digit s i hi] by simp
    ultimately show ?thesis using lo by (simp add: digits_def)
  qed
  with g lo b l show ?thesis by simp
qed

lemma token_match:
  assumes "(j, g) \<in> set (rmatch False s pat_token (i, None))"
  shows "i < j \<and> j \<le> length s \<and> token_shaped (slice s i j)"
proof -
  let ?tail = "Opt (cat [Atom (Lit 0x2F), Rep digit 2 (Some 4)])"
  from assms obtain k where k: "(k, None) \<in> set (rmatch False s (Rep digit 3 (Some 8)) (i, None))"
    and t: "(j, g) \<in> set (rmatch False s (cat [?tail, WordB]) (k, None))"
    unfolding pat_token_def in_rmatch_cat_Cons [of _ _ _ WordB] in_rmatch_WordB
    unfolding in_rmatch_cat_Cons [of _ _ _ "Rep digit 3 (Some 8)"]
    by (auto simp: in_rmatch_Rep')
  from rep_digits [OF k] have ik: "i \<le> k" "k \<le> length s" and a: "digits 3 8 (slice s i k)"
    by simp_all
  from a ik have "3 \<le> k - i" by (simp add: digits_def length_slice)
  then have lt: "i < k" by linarith
  from t consider (plain) "j = k"
    | (slash) l where "k < length s" "s ! k = 0x2F"
        "(l, None) \<in> set (rmatch False s (Rep digit 2 (Some 4)) (Suc k, None))" "j = l"
    by (auto simp: in_rmatch in_rmatch_Rep')
  then show ?thesis
  proof cases
    case plain
    with a ik lt show ?thesis by (auto simp: token_shaped_def)
  next
    case slash
    from rep_digits [OF slash(3)] have kl: "Suc k \<le> l" "l \<le> length s"
      and b: "digits 2 4 (slice s (Suc k) l)"
      by simp_all
    have "slice s i l = slice s i k @ slice s k l"
      using ik kl by (intro slice_append) simp_all
    also have "slice s k l = slice s k (Suc k) @ slice s (Suc k) l"
      using kl by (intro slice_append) simp_all
    also have "slice s k (Suc k) = [0x2F]"
      using slash(1,2) by (simp add: slice_single)
    finally have "slice s i l = slice s i k @ [0x2F] @ slice s (Suc k) l" by simp
    with a b slash(4) kl lt show ?thesis by (auto simp: token_shaped_def)
  qed
qed

lemma token_shaped_stripped:
  assumes "token_shaped t"
  shows "stripped t"
proof -
  have "\<not> isspace 0x2F" by (simp add: isspace_def in_ranges_def)
  moreover from assms have "t \<noteq> []" and "\<forall>c\<in>set t. isdecimal c \<or> c = 0x2F"
    by (auto simp: token_shaped_def digits_def)
  ultimately have "t \<noteq> []" and "\<forall>c\<in>set t. \<not> isspace c"
    using decimal_not_space by blast+
  then show ?thesis by (rule stripped_no_space)
qed

lemma findall_token:
  assumes "t \<in> set (findall False pat_token s)"
  shows "token_shaped t"
proof -
  from assms obtain m where "m \<in> set (finditer False pat_token s)" and t: "t = group0 s m"
    by (auto simp: findall_def)
  from finditer_mem [OF this(1)] token_match [of "m_end m" "m_span1 m" s "m_start m"] t
  show ?thesis by (simp add: group0_def)
qed

text \<open>A match of either date pattern begins and ends with a digit.\<close>

lemma date_match_stripped:
  assumes "(j, g) \<in> set (rmatch ic s r (i, None))" and "r = pat_date_long \<or> r = pat_date_num"
  shows "i < j \<and> j \<le> length s \<and> stripped (slice s i j)"
proof -
  from assms have f: "i < j \<and> i < length s \<and> isdecimal (s ! i)"
    by (auto simp: pat_date_long_def pat_date_num_def dest!: cat_wordb_rep_first)
  have "\<exists>rs. r = cat (rs @ [Rep digit 4 (Some 4), WordB])"
  proof (cases "r = pat_date_long")
    case True
    then have "r = cat ([WordB, Rep digit 1 (Some 2), Rep space 1 None, word ''de'',
        Rep space 1 None, Rep month_letters 1 None, Rep space 1 None, word ''de'',
        Rep space 1 None] @ [Rep digit 4 (Some 4), WordB])"
      by (simp add: pat_date_long_def)
    then show ?thesis by blast
  next
    case False
    with assms(2) have "r = cat ([WordB, Rep digit 2 (Some 2), Atom (Lit 0x2F),
        Rep digit 2 (Some 2), Atom (Lit 0x2F)] @ [Rep digit 4 (Some 4), WordB])"
      by (simp add: pat_date_num_def)
    then show ?thesis by blast
  qed
  then obtain rs where "r = cat (rs @ [Rep digit 4 (Some 4), WordB])" ..
  with assms(1) have l: "0 < j \<and> j \<le> length s \<and> isdecimal (s ! (j - 1))"
    by (auto dest!: cat_rep_wordb_last)
  from f l have "length (slice s i j) = j - i" by (simp add: length_slice)
  with f l have "slice s i j \<noteq> []" "\<not> isspace (hd (slice s i j))" "\<not> isspace (last (slice s i j))"
    by (auto simp: hd_slice last_slice dest: decimal_not_space)
  with f l show ?thesis by (simp add: stripped_def)
qed

text \<open>Each candidate is a match with its start offset; stripping leaves its text as it is.\<close>

lemma date_candidates_mem:
  assumes "(p, d) \<in> set (date_candidates text)"
  shows "\<exists>m. (m \<in> set (finditer True pat_date_long text) \<or> m \<in> set (finditer False pat_date_num text)) \<and>
           p = m_start m \<and> d = group0 text m \<and> stripped d"
proof -
  from assms obtain m ic r where m: "m \<in> set (finditer ic r text)"
    and r: "r = pat_date_long \<and> ic \<or> r = pat_date_num \<and> \<not> ic"
    and p: "p = m_start m" and d: "d = strip (group0 text m)"
    by (auto simp: date_candidates_def)
  from finditer_mem [OF m] r have "stripped (group0 text m)"
    unfolding group0_def by (auto dest: date_match_stripped)
  with d have "d = group0 text m" "stripped d" by (simp_all add: strip_id)
  with m r p show ?thesis by auto
qed

section \<open>Every extractor returns nothing or a stripped value\<close>

lemma find_label_value_stripped:
  assumes "find_label_value text label max_chars = Some v"
  shows "stripped v"
proof -
  from assms obtain x where "v = strip x" and "strip x \<noteq> []"
    by (auto simp: find_label_value_def Let_def find_Some_iff split: option.splits if_splits)
  then show ?thesis by (simp add: strip_stripped)
qed

lemma matricula_class_no_space:
  "atom_match True (In [CatDigit, Chr 0x2E, Chr 0x2D, Chr 0x2F]) c \<Longrightarrow> \<not> isspace c"
  unfolding matricula_class using decimal_not_space by (auto simp: isspace_def in_ranges_def)

lemma processo_class_no_space:
  "atom_match True (In [Rng 0x30 0x39, Chr 0x2F, Chr 0x2E, Chr 0x2D]) c \<Longrightarrow> \<not> isspace c"
  unfolding processo_class by (auto simp: isspace_def in_ranges_def)

lemma pat_matricula_shape:
  "pat_matricula = cat ((matricula_label @ [Rep (In [Chr 0x3A, CatSpace]) 0 None]) @
     [Group (Rep (In [CatDigit, Chr 0x2E, Chr 0x2D, Chr 0x2F]) 1 None)])"
  "pat_matricula2 = cat ((matricula_label @ [Rep space 1 None]) @
     [Group (Rep (In [CatDigit, Chr 0x2E, Chr 0x2D, Chr 0x2F]) 1 None)])"
  by (simp_all add: pat_matricula_def pat_matricula2_def matricula_value_def)

lemma pat_processo_shape:
  "\<exists>rs. pat_processo = cat (rs @
     [Group (Rep (In [Rng 0x30 0x39, Chr 0x2F, Chr 0x2E, Chr 0x2D]) 4 (Some 25))])"
proof -
  have "pat_processo = cat ([word ''Processo'',
     Opt (Alt (cat [Rep space 0 None, Atom (Lit 0x4E), Atom (In [Chr 0xBA, Chr 0x6F])])
         (Alt (cat [Rep space 0 None, Atom (Lit 0x4E), Atom (Lit 0x2E), Atom (Lit 0xBA)])
              (Atom (Lit 0x3A)))),
     Rep space 0 None] @
     [Group (Rep (In [Rng 0x30 0x39, Chr 0x2F, Chr 0x2E, Chr 0x2D]) 4 (Some 25))])"
    by (simp add: pat_processo_def)
  then show ?thesis by blast
qed

lemma matricula_search_value:
  assumes "re_search True r text = Some m" and "r = pat_matricula \<or> r = pat_matricula2"
  shows "\<exists>v. group1_strip text m = Inr (Some v) \<and> stripped v"
proof -
  let ?a = "In [CatDigit, Chr 0x2E, Chr 0x2D, Chr 0x2F]"
  from re_search_mem [OF assms(1)]
  have m: "(m_end m, m_span1 m) \<in> set (rmatch True text r (m_start m, None))" ..
  from assms(2) obtain rs where "r = cat (rs @ [Group (Rep ?a 1 None)])"
    using pat_matricula_shape by blast
  with m have mem: "(m_end m, m_span1 m) \<in>
      set (rmatch True text (cat (rs @ [Group (Rep ?a 1 None)])) (m_start m, None))"
    by simp
  have "\<exists>v. group1_strip text m = Inr (Some v) \<and> stripped v \<and> (\<forall>c\<in>set v. atom_match True ?a c)"
  proof (rule group1_strip_value [OF mem])
    show "0 < (1::nat)" by simp
    show "\<And>c. atom_match True ?a c \<Longrightarrow> \<not> isspace c" by (rule matricula_class_no_space)
  qed
  then show ?thesis by blast
qed

lemma processo_search_value:
  assumes "re_search True pat_processo text = Some m"
  shows "\<exists>v. group1_strip text m = Inr (Some v) \<and> stripped v"
proof -
  let ?a = "In [Rng 0x30 0x39, Chr 0x2F, Chr 0x2E, Chr 0x2D]"
  from re_search_mem [OF assms]
  have m: "(m_end m, m_span1 m) \<in> set (rmatch True text pat_processo (m_start m, None))" ..
  from pat_processo_shape obtain rs
    where "pat_processo = cat (rs @ [Group (Rep ?a 4 (Some 25))])" ..
  with m have mem: "(m_end m, m_span1 m) \<in>
      set (rmatch True text (cat (rs @ [Group (Rep ?a 4 (Some 25))])) (m_start m, None))"
    by simp
  have "\<exists>v. group1_strip text m = Inr (Some v) \<and> stripped v \<and> (\<forall>c\<in>set v. atom_match True ?a c)"
  proof (rule group1_strip_value [OF mem])
    show "0 < (4::nat)" by simp
    show "\<And>c. atom_match True ?a c \<Longrightarrow> \<not> isspace c" by (rule processo_class_no_space)
  qed
  then show ?thesis by blast
qed

lemma extract_matricula_value:
  "\<exists>r. extract_matricula text = Inr r \<and> (\<forall>v. r = Some v \<longrightarrow> stripped v)"
proof (cases "re_search True pat_matricula text")
  case (Some m)
  with matricula_search_value [of pat_matricula "text" m] show ?thesis
    by (auto simp: extract_matricula_def)
next
  case None
  show ?thesis
  proof (cases "re_search True pat_matricula2 text")
    case (Some m2)
    with None matricula_search_value [of pat_matricula2 "text" m2] show ?thesis
      by (auto simp: extract_matricula_def)
  next
    case n2: None
    with None show ?thesis by (simp add: extract_matricula_def)
  qed
qed

lemma fallback_token:
  assumes "tokens \<noteq> []"
  shows "(case List.find P tokens of Some t \<Rightarrow> t | None \<Rightarrow> max_from k (hd tokens) (tl tokens))
           \<in> set tokens"
proof (cases "List.find P tokens")
  case None
  with max_from_mem [of k "hd tokens" "tl tokens"] assms show ?thesis by simp
next
  case (Some t)
  then have "t \<in> set tokens" by (auto simp: find_Some_iff)
  with Some show ?thesis by simp
qed

lemma extract_numero_processo_value:
  "\<exists>r. extract_numero_processo text = Inr r \<and> (\<forall>v. r = Some v \<longrightarrow> stripped v)"
proof (cases "re_search True pat_processo text")
  case (Some m)
  with processo_search_value [of "text" m] show ?thesis
    by (auto simp: extract_numero_processo_def)
next
  case None
  let ?tokens = "findall False pat_token text"
  show ?thesis
  proof (cases "?tokens = []")
    case True
    with None show ?thesis by (simp add: extract_numero_processo_def)
  next
    case False
    from fallback_token [OF False] findall_token
    have "stripped (case List.find (\<lambda>t. 0x2F \<in> set t) ?tokens of Some t \<Rightarrow> t
        | None \<Rightarrow> max_from length (hd ?tokens) (tl ?tokens))"
      by (blast intro: token_shaped_stripped)
    with None False show ?thesis
      by (auto simp: extract_numero_processo_def Let_def split: option.splits)
  qed
qed

lemma extract_last_date_stripped:
  assumes "extract_last_date text = Some v"
  shows "stripped v"
proof -
  let ?c = "date_candidates text"
  from assms have ne: "?c \<noteq> []" and v: "v = snd (max_from fst (hd ?c) (tl ?c))"
    by (auto simp: extract_last_date_def Let_def split: if_splits)
  from max_from_mem [of fst "hd ?c" "tl ?c"] ne have "max_from fst (hd ?c) (tl ?c) \<in> set ?c"
    by simp
  with v have "\<exists>p. (p, v) \<in> set ?c" by (metis prod.collapse)
  then show ?thesis by (auto dest: date_candidates_mem)
qed

text \<open>A document with all four fields.\<close>

definition demo_text :: str where
  "demo_text = ustr ''Requerente: Ana'' @ [0x0A] @ ustr ''Matricula 12-3'' @ [0x0A] @
     ustr ''Processo 4567 em 08/01/2016''"

lemma demo_text_fields:
  "find_label_value demo_text (ustr ''Requerente'') 300 = Some (ustr ''Ana'')"
  "extract_matricula demo_text = Inr (Some (ustr ''12-3''))"
  "extract_numero_processo demo_text = Inr (Some (ustr ''4567''))"
  "extract_last_date demo_text = Some (ustr ''08/01/2016'')"
     apply (simp add: demo_text_def find_label_value_def pats engine chars ustr_def)
    apply (simp add: demo_text_def extract_matricula_def pats engine chars ustr_def)
   apply (simp add: demo_text_def extract_numero_processo_def pats engine chars ustr_def)
  apply (simp add: demo_text_def extract_last_date_def pats engine chars ustr_def)
  done

text \<open>
  C10. For every text (and label and window), each of the four extractors returns
  \<open>None\<close> or a value that is not empty and has no white space at either end; the two
  extractors that call \<open>m.group(1).strip()\<close> never raise.
\<close>

theorem extractors_return_stripped:
  "(\<forall>v. find_label_value text label max_chars = Some v \<longrightarrow> stripped v) \<and>
   (\<exists>r. extract_matricula text = Inr r \<and> (\<forall>v. r = Some v \<longrightarrow> stripped v)) \<and>
   (\<exists>r. extract_numero_processo text = Inr r \<and> (\<forall>v. r = Some v \<longrightarrow> stripped v)) \<and>
   (\<forall>v. extract_last_date text = Some v \<longrightarrow> stripped v)"
  using find_label_value_stripped extract_matricula_value extract_numero_processo_value
    extract_last_date_stripped by blast

theorem extractors_return_stripped_witness:
  "find_label_value demo_text (ustr ''Requerente'') 300 = Some (ustr ''Ana'') \<and>
   extract_matricula demo_text = Inr (Some (ustr ''12-3'')) \<and>
   extract_numero_processo demo_text = Inr (Some (ustr ''4567'')) \<and>
   extract_last_date demo_text = Some (ustr ''08/01/2016'') \<and>
   stripped (ustr ''Ana'') \<and> stripped (ustr ''12-3'') \<and> stripped (ustr ''4567'') \<and>
   stripped (ustr ''08/01/2016'')"
  using extractors_return_stripped [of demo_text "ustr ''Requerente''" 300]
  by (simp add: demo_text_fields)

section \<open>The second registration pattern adds nothing\<close>

lemma takeWhile_length_ge:
  "(\<And>n. n < m \<Longrightarrow> n < length xs \<and> P (xs ! n)) \<Longrightarrow> m \<le> length (takeWhile P xs)"
proof (induction xs arbitrary: m)
  case Nil
  then show ?case by (cases m) auto
next
  case (Cons x xs)
  show ?case
  proof (cases m)
    case 0
    then show ?thesis by simp
  next
    case (Suc m')
    from Cons.prems [of 0] Suc have x: "P x" by simp
    have "m' \<le> length (takeWhile P xs)"
    proof (rule Cons.IH)
      fix n assume "n < m'"
      with Cons.prems [of "Suc n"] Suc show "n < length xs \<and> P (xs ! n)" by simp
    qed
    with x Suc show ?thesis by simp
  qed
qed

lemma count_run_ge:
  assumes "\<And>n. i \<le> n \<Longrightarrow> n < k \<Longrightarrow> n < length s \<and> atom_match ic a (s ! n)"
  shows "k - i \<le> count_run ic a s i None"
proof -
  have "k - i \<le> length (takeWhile (atom_match ic a) (drop i s))"
  proof (rule takeWhile_length_ge)
    fix n assume n: "n < k - i"
    then have "i \<le> i + n" and "i + n < k" by simp_all
    from assms [OF this] n show "n < length (drop i s) \<and> atom_match ic a (drop i s ! n)"
      by force
  qed
  then show ?thesis by (simp add: count_run_def)
qed

text \<open>
  The version of the extractor that the claim compares with: the first pattern only.
\<close>

definition extract_matricula_primary :: "str \<Rightarrow> exn + str option" where
  "extract_matricula_primary text =
     (case re_search True pat_matricula text of
        Some m \<Rightarrow> group1_strip text m
      | None \<Rightarrow> Inr None)"

lemma matricula2_outcomes:
  "set (rmatch True s pat_matricula2 st) \<subseteq> set (rmatch True s pat_matricula st)"
proof
  fix x assume "x \<in> set (rmatch True s pat_matricula2 st)"
  then have "\<exists>y\<in>set (rmatch True s (cat matricula_label) st).
      x \<in> set (rmatch True s (cat [Rep space 1 None, matricula_value]) y)"
    by (simp add: pat_matricula2_def rmatch_cat_append)
  then obtain y where y: "y \<in> set (rmatch True s (cat matricula_label) st)"
    and "x \<in> set (rmatch True s (cat [Rep space 1 None, matricula_value]) y)" ..
  then obtain z where z: "z \<in> set (rmatch True s (Rep space 1 None) y)"
    and x: "x \<in> set (rmatch True s (cat [matricula_value]) z)"
    unfolding in_rmatch_cat_Cons [of _ _ _ "Rep space 1 None"] by blast
  let ?b = "fst y" and ?k = "fst z"
  from z have h: "snd z = snd y" and bk: "?b + 1 \<le> ?k"
    and hi: "?k \<le> ?b + count_run True space s ?b None"
    by (simp_all add: in_rmatch_Rep')
  have "n < length s \<and> atom_match True (In [Chr 0x3A, CatSpace]) (s ! n)"
    if "?b \<le> n" "n < ?k" for n
  proof -
    from that hi have "n - ?b < count_run True space s ?b None" by simp
    from count_run_match [OF this] that have "n < length s" and "isspace (s ! n)" by simp_all
    then show ?thesis unfolding colon_space_class by simp
  qed
  then have "?k - ?b \<le> count_run True (In [Chr 0x3A, CatSpace]) s ?b None"
    by (rule count_run_ge)
  with bk h have "z \<in> set (rmatch True s (Rep (In [Chr 0x3A, CatSpace]) 0 None) y)"
    by (simp add: in_rmatch_Rep')
  with x have "x \<in> set (rmatch True s (cat [Rep (In [Chr 0x3A, CatSpace]) 0 None, matricula_value]) y)"
    unfolding in_rmatch_cat_Cons [of _ _ _ "Rep (In [Chr 0x3A, CatSpace]) 0 None"] by blast
  with y show "x \<in> set (rmatch True s pat_matricula st)"
    by (auto simp: pat_matricula_def rmatch_cat_append)
qed

lemma matricula2_search_None:
  assumes "re_search True pat_matricula text = None"
  shows "re_search True pat_matricula2 text = None"
proof -
  from assms have "\<forall>i. 0 \<le> i \<and> i \<le> length text \<longrightarrow> rmatch True text pat_matricula (i, None) = []"
    by (simp only: re_search_def search_from_None)
  with matricula2_outcomes
  have "\<forall>i. 0 \<le> i \<and> i \<le> length text \<longrightarrow> rmatch True text pat_matricula2 (i, None) = []"
    by (metis set_empty subset_empty)
  then show ?thesis by (simp only: re_search_def search_from_None)
qed

lemma matricula_samples:
  "rmatch True (ustr ''Matricula 12'') pat_matricula2 (0, None) = [(12, Some (10, 12)), (11, Some (10, 11))]"
  "re_search True pat_matricula (ustr ''sem numero'') = None"
  "extract_matricula (ustr ''Matricula 12'') = Inr (Some (ustr ''12''))"
    apply (simp add: pats engine chars ustr_def)
   apply (simp add: pats engine chars ustr_def)
  apply (simp add: extract_matricula_def pats engine chars ustr_def)
  done

text \<open>
  C9. At every position the outcomes of the second pattern are among those of the first,
  so the second pattern matches nowhere when the first matches nowhere, and the extractor
  equals the one that uses the first pattern only.
\<close>

theorem matricula_secondary_subsumed:
  "(\<forall>x. x \<in> set (rmatch True text pat_matricula2 (i, None)) \<longrightarrow>
        x \<in> set (rmatch True text pat_matricula (i, None))) \<and>
   (re_search True pat_matricula text = None \<longrightarrow> re_search True pat_matricula2 text = None) \<and>
   extract_matricula text = extract_matricula_primary text"
proof (intro conjI)
  show "\<forall>x. x \<in> set (rmatch True text pat_matricula2 (i, None)) \<longrightarrow>
        x \<in> set (rmatch True text pat_matricula (i, None))"
    using matricula2_outcomes by blast
  show "re_search True pat_matricula text = None \<longrightarrow> re_search True pat_matricula2 text = None"
    using matricula2_search_None by blast
  show "extract_matricula text = extract_matricula_primary text"
    by (auto simp: extract_matricula_def extract_matricula_primary_def matricula2_search_None
        split: option.splits)
qed

theorem matricula_secondary_subsumed_witness:
  "(12, Some (10, 12)) \<in> set (rmatch True (ustr ''Matricula 12'') pat_matricula2 (0, None)) \<and>
   (12, Some (10, 12)) \<in> set (rmatch True (ustr ''Matricula 12'') pat_matricula (0, None)) \<and>
   re_search True pat_matricula (ustr ''sem numero'') = None \<and>
   re_search True pat_matricula2 (ustr ''sem numero'') = None \<and>
   extract_matricula_primary (ustr ''Matricula 12'') = Inr (Some (ustr ''12''))"
  using matricula_secondary_subsumed [of "ustr ''Matricula 12''" 0]
    matricula_secondary_subsumed [of "ustr ''sem numero''" 0]
  by (simp add: matricula_samples)

section \<open>The fallback of the process number extractor\<close>

text \<open>\<open>max(xs, key=k)\<close> splits the list at the first element with the greatest key.\<close>

lemma max_from_split:
  "\<exists>pre post. best # xs = pre @ max_from k best xs # post \<and>
     (\<forall>p\<in>set pre. k p < k (max_from k best xs)) \<and>
     (\<forall>q\<in>set post. k q \<le> k (max_from k best xs))"
proof (induction xs arbitrary: best)
  case Nil
  show ?case by (intro exI [of _ "[]"]) simp
next
  case (Cons x xs)
  show ?case
  proof (cases "k best < k x")
    case True
    let ?r = "max_from k x xs"
    from True have r: "max_from k best (x # xs) = ?r" by simp
    from Cons.IH [of x] obtain pre post where d: "x # xs = pre @ ?r # post"
      and p: "\<forall>p\<in>set pre. k p < k ?r"
      and q: "\<forall>q\<in>set post. k q \<le> k ?r"
      by blast
    have "x \<in> set (x # xs)" by simp
    then have "x \<in> set pre \<or> x = ?r \<or> x \<in> set post" unfolding d by auto
    with p q have "k x \<le> k ?r" by (auto intro: less_imp_le)
    with True have "k best < k ?r" by simp
    with p have p': "\<forall>p\<in>set (best # pre). k p < k ?r" by simp
    have "best # x # xs = (best # pre) @ ?r # post" unfolding d by simp
    with p' q show ?thesis unfolding r by blast
  next
    case False
    let ?r = "max_from k best xs"
    from False have r: "max_from k best (x # xs) = ?r" by simp
    from Cons.IH [of best] obtain pre post where d: "best # xs = pre @ ?r # post"
      and p: "\<forall>p\<in>set pre. k p < k ?r"
      and q: "\<forall>q\<in>set post. k q \<le> k ?r"
      by blast
    show ?thesis
    proof (cases pre)
      case Nil
      from d have "best # xs = ?r # post" unfolding Nil by (simp only: append_Nil)
      then have b: "?r = best" and xs: "xs = post" by (metis list.inject)+
      from False b q have "\<forall>q\<in>set (x # post). k q \<le> k ?r" by simp
      moreover have "best # x # xs = [] @ ?r # (x # post)" using b xs by simp
      moreover have "\<forall>p\<in>set ([]::'a list). k p < k ?r" by simp
      ultimately show ?thesis unfolding r by blast
    next
      case (Cons b pre')
      from d have "best # xs = b # (pre' @ ?r # post)" unfolding Cons by (simp only: append_Cons)
      then have b: "b = best" and xs: "xs = pre' @ ?r # post" by (metis list.inject)+
      from p Cons b have "k best < k ?r" by simp
      with False have "k x < k ?r" by simp
      with p Cons b have p': "\<forall>p\<in>set (best # x # pre'). k p < k ?r" by simp
      have "best # x # xs = (best # x # pre') @ ?r # post"
        by (subst xs) simp
      with p' q show ?thesis unfolding r by blast
    qed
  qed
qed


lemma max_from_first:
  assumes i: "i < length ys"
    and ge: "\<forall>j<length ys. k (ys ! j) \<le> k (ys ! i)"
    and lt: "\<forall>j<i. k (ys ! j) < k (ys ! i)"
  shows "max_from k (hd ys) (tl ys) = ys ! i"
proof -
  from i have ys: "hd ys # tl ys = ys" by (cases ys) simp_all
  let ?r = "max_from k (hd ys) (tl ys)"
  from max_from_split [of "hd ys" "tl ys" k] obtain pre post
    where d: "ys = pre @ ?r # post"
      and p: "\<forall>p\<in>set pre. k p < k ?r" and q: "\<forall>q\<in>set post. k q \<le> k ?r"
    unfolding ys by blast
  let ?n = "length pre"
  have n: "?n < length ys" by (subst d) simp
  have r: "ys ! ?n = ?r" by (subst d) simp
  have "\<not> i < ?n"
  proof
    assume a: "i < ?n"
    have "ys ! i = pre ! i" by (subst d) (simp add: a nth_append)
    with a have "ys ! i \<in> set pre" by simp
    with p have "k (ys ! i) < k ?r" by blast
    moreover from ge n have "k (ys ! ?n) \<le> k (ys ! i)" by blast
    ultimately show False unfolding r by simp
  qed
  moreover have "\<not> ?n < i"
  proof
    assume "?n < i"
    with lt have "k (ys ! ?n) < k (ys ! i)" by blast
    then have 1: "k ?r < k (ys ! i)" unfolding r .
    have "ys ! i \<in> set ys" using i by simp
    then have "ys ! i \<in> set pre \<or> ys ! i = ?r \<or> ys ! i \<in> set post"
      by (subst (asm) (2) d) auto
    with p q have "k (ys ! i) \<le> k ?r" by (auto intro: less_imp_le)
    with 1 show False by simp
  qed
  ultimately have "i = ?n" by simp
  with r show ?thesis by simp
qed

lemma find_first:
  assumes "i < length ys" and "P (ys ! i)" and "\<forall>j<i. \<not> P (ys ! j)"
  shows "List.find P ys = Some (ys ! i)"
  using assms unfolding find_Some_iff by blast

text \<open>\<open>finditer\<close> reports its matches from left to right.\<close>

lemma finditer_from_sorted:
  "sorted_wrt (\<lambda>a b. m_start a < m_start b) (finditer_from ic r s pos)"
proof (induction ic r s pos rule: finditer_from.induct)
  case (1 ic r s pos)
  show ?case
  proof (cases "search_from ic r s pos")
    case None
    then show ?thesis by (simp add: finditer_from.simps [of ic r s pos])
  next
    case (Some m)
    note st = search_from_Some [OF Some]
    show ?thesis
    proof (cases "m_start m < m_end m")
      case True
      have "m_start m < m_start x" if "x \<in> set (finditer_from ic r s (m_end m))" for x
      proof -
        from finditer_from_mem [OF that] obtain p where "m_end m \<le> p"
          and "search_from ic r s p = Some x" by blast
        with search_from_Some [of ic r s p x] True show ?thesis by simp
      qed
      with "1.IH"(1) [OF Some True] Some True show ?thesis
        by (simp add: finditer_from.simps [of ic r s pos])
    next
      case nt: False
      show ?thesis
      proof (cases "m_start m < length s")
        case lt: True
        have "m_start m < m_start x" if "x \<in> set (finditer_from ic r s (Suc (m_start m)))" for x
        proof -
          from finditer_from_mem [OF that] obtain p where "Suc (m_start m) \<le> p"
            and "search_from ic r s p = Some x" by blast
          with search_from_Some [of ic r s p x] show ?thesis by simp
        qed
        with "1.IH"(2) [OF Some nt lt] Some nt lt show ?thesis
          by (simp add: finditer_from.simps [of ic r s pos])
      next
        case False
        with Some nt show ?thesis by (simp add: finditer_from.simps [of ic r s pos])
      qed
    qed
  qed
qed

lemma finditer_sorted: "sorted_wrt (\<lambda>a b. m_start a < m_start b) (finditer ic r s)"
  by (simp add: finditer_def finditer_from_sorted)

lemma finditer_same_start:
  assumes "a \<in> set (finditer ic r s)" and "b \<in> set (finditer ic r s)" and "m_start a = m_start b"
  shows "a = b"
proof (rule ccontr)
  assume ne: "a \<noteq> b"
  from assms(1,2) obtain i j where i: "i < length (finditer ic r s)" "finditer ic r s ! i = a"
    and j: "j < length (finditer ic r s)" "finditer ic r s ! j = b"
    by (auto simp: in_set_conv_nth)
  with ne have "i < j \<or> j < i" by (metis nat_neq_iff)
  with finditer_sorted [of ic r s] i j have "m_start a < m_start b \<or> m_start b < m_start a"
    by (auto simp: sorted_wrt_iff_nth_less)
  with assms(3) show False by simp
qed

text \<open>Texts without the word Processo, for the fallback.\<close>

lemma fallback_samples:
  "re_search True pat_processo (ustr ''ref 123 4567 8901 e 22'') = None"
  "findall False pat_token (ustr ''ref 123 4567 8901 e 22'') = [ustr ''123'', ustr ''4567'', ustr ''8901'']"
  "re_search True pat_processo (ustr ''n. 12345 de 678/90'') = None"
  "findall False pat_token (ustr ''n. 12345 de 678/90'') = [ustr ''12345'', ustr ''678/90'']"
  "re_search True pat_processo (ustr ''sem numero'') = None"
  "findall False pat_token (ustr ''sem numero'') = []"
  by (simp_all add: pats engine chars ustr_def)

text \<open>
  C4. When the Processo pattern matches nowhere, the extractor works on the tokens that
  \<open>findall\<close> gives for the token pattern, each of 3 to 8 digits optionally followed by
  \<open>/\<close> and 2 to 4 digits, listed in the order of their offsets in the text: with no
  token it returns \<open>None\<close>; it returns the first token that contains \<open>/\<close>; and
  when no token contains \<open>/\<close> it returns the first among the longest tokens.
\<close>

theorem processo_fallback:
  assumes "re_search True pat_processo text = None"
  shows "(\<forall>t\<in>set (findall False pat_token text). token_shaped t) \<and>
     (findall False pat_token text = [] \<longrightarrow> extract_numero_processo text = Inr None) \<and>
     (\<forall>i<length (findall False pat_token text).
        0x2F \<in> set (findall False pat_token text ! i) \<and>
        (\<forall>j<i. 0x2F \<notin> set (findall False pat_token text ! j)) \<longrightarrow>
        extract_numero_processo text = Inr (Some (findall False pat_token text ! i))) \<and>
     (\<forall>i<length (findall False pat_token text).
        (\<forall>t\<in>set (findall False pat_token text). 0x2F \<notin> set t) \<and>
        (\<forall>j<length (findall False pat_token text).
           length (findall False pat_token text ! j) \<le> length (findall False pat_token text ! i)) \<and>
        (\<forall>j<i. length (findall False pat_token text ! j) < length (findall False pat_token text ! i)) \<longrightarrow>
        extract_numero_processo text = Inr (Some (findall False pat_token text ! i))) \<and>
     findall False pat_token text = map (group0 text) (finditer False pat_token text) \<and>
     sorted_wrt (\<lambda>a b. m_start a < m_start b) (finditer False pat_token text)"
proof (intro conjI allI impI)
  let ?tokens = "findall False pat_token text"
  show "?tokens = map (group0 text) (finditer False pat_token text)" by (simp add: findall_def)
  show "sorted_wrt (\<lambda>a b. m_start a < m_start b) (finditer False pat_token text)"
    by (rule finditer_sorted)
  show "\<forall>t\<in>set ?tokens. token_shaped t" by (simp add: findall_token)
  show "extract_numero_processo text = Inr None" if "?tokens = []"
    using that assms by (simp add: extract_numero_processo_def)
  show "extract_numero_processo text = Inr (Some (?tokens ! i))"
    if "i < length ?tokens"
      and "0x2F \<in> set (?tokens ! i) \<and> (\<forall>j<i. 0x2F \<notin> set (?tokens ! j))" for i
  proof -
    from that have "List.find (\<lambda>t. 0x2F \<in> set t) ?tokens = Some (?tokens ! i)"
      by (intro find_first) simp_all
    moreover from that have "?tokens \<noteq> []" by auto
    ultimately show ?thesis using assms by (simp add: extract_numero_processo_def Let_def)
  qed
  show "extract_numero_processo text = Inr (Some (?tokens ! i))"
    if "i < length ?tokens"
      and "(\<forall>t\<in>set ?tokens. 0x2F \<notin> set t) \<and>
        (\<forall>j<length ?tokens. length (?tokens ! j) \<le> length (?tokens ! i)) \<and>
        (\<forall>j<i. length (?tokens ! j) < length (?tokens ! i))" for i
  proof -
    from that have "List.find (\<lambda>t. 0x2F \<in> set t) ?tokens = None"
      by (simp add: find_None_iff)
    moreover from that have "max_from length (hd ?tokens) (tl ?tokens) = ?tokens ! i"
      by (intro max_from_first) simp_all
    moreover from that have "?tokens \<noteq> []" by auto
    ultimately show ?thesis using assms by (simp add: extract_numero_processo_def Let_def)
  qed
qed

theorem processo_fallback_witness:
  "extract_numero_processo (ustr ''ref 123 4567 8901 e 22'') = Inr (Some (ustr ''4567'')) \<and>
   extract_numero_processo (ustr ''n. 12345 de 678/90'') = Inr (Some (ustr ''678/90'')) \<and>
   extract_numero_processo (ustr ''sem numero'') = Inr None \<and>
   token_shaped (ustr ''4567'')"
proof -
  note longest = processo_fallback [OF fallback_samples(1), unfolded fallback_samples(2)]
  note slash = processo_fallback [OF fallback_samples(3), unfolded fallback_samples(4)]
  note none = processo_fallback [OF fallback_samples(5), unfolded fallback_samples(6)]
  from longest have d: "token_shaped (ustr ''4567'')" by simp
  have "extract_numero_processo (ustr ''ref 123 4567 8901 e 22'') =
      Inr (Some ([ustr ''123'', ustr ''4567'', ustr ''8901''] ! 1))"
  proof (rule longest [THEN conjunct2, THEN conjunct2, THEN conjunct2, THEN conjunct1, rule_format, of 1])
    show "1 < length [ustr ''123'', ustr ''4567'', ustr ''8901'']" by simp
    show "(\<forall>t\<in>set [ustr ''123'', ustr ''4567'', ustr ''8901'']. 0x2F \<notin> set t) \<and>
      (\<forall>j<length [ustr ''123'', ustr ''4567'', ustr ''8901''].
         length ([ustr ''123'', ustr ''4567'', ustr ''8901''] ! j)
           \<le> length ([ustr ''123'', ustr ''4567'', ustr ''8901''] ! 1)) \<and>
      (\<forall>j<1. length ([ustr ''123'', ustr ''4567'', ustr ''8901''] ! j)
           < length ([ustr ''123'', ustr ''4567'', ustr ''8901''] ! 1))"
      by (simp add: ustr_def All_less_Suc)
  qed
  then have a: "extract_numero_processo (ustr ''ref 123 4567 8901 e 22'') = Inr (Some (ustr ''4567''))"
    by simp
  have "extract_numero_processo (ustr ''n. 12345 de 678/90'') =
      Inr (Some ([ustr ''12345'', ustr ''678/90''] ! 1))"
  proof (rule slash [THEN conjunct2, THEN conjunct2, THEN conjunct1, rule_format, of 1])
    show "1 < length [ustr ''12345'', ustr ''678/90'']" by simp
    show "0x2F \<in> set ([ustr ''12345'', ustr ''678/90''] ! 1) \<and>
      (\<forall>j<1. 0x2F \<notin> set ([ustr ''12345'', ustr ''678/90''] ! j))"
      by (simp add: ustr_def)
  qed
  then have b: "extract_numero_processo (ustr ''n. 12345 de 678/90'') = Inr (Some (ustr ''678/90''))"
    by simp
  from none have c: "extract_numero_processo (ustr ''sem numero'') = Inr None"
    by simp
  from a b c d show ?thesis by simp
qed

section \<open>The last date is the match with the greatest offset\<close>

text \<open>The matches of the two date patterns, pooled as the program pools them.\<close>

definition date_matches :: "str \<Rightarrow> rematch list" where
  "date_matches text = finditer True pat_date_long text @ finditer False pat_date_num text"

lemma date_candidates_matches:
  "date_candidates text = map (\<lambda>m. (m_start m, strip (group0 text m))) (date_matches text)"
  by (simp add: date_candidates_def date_matches_def)

lemma date_matches_stripped:
  assumes "m \<in> set (date_matches text)"
  shows "strip (group0 text m) = group0 text m"
proof -
  from assms obtain ic r where m: "m \<in> set (finditer ic r text)"
    and r: "r = pat_date_long \<or> r = pat_date_num"
    by (auto simp: date_matches_def)
  from finditer_mem [OF m] r have "stripped (group0 text m)"
    unfolding group0_def by (auto dest: date_match_stripped)
  then show ?thesis by (rule strip_id)
qed

text \<open>
  The two patterns cannot match at the same offset: after one or two digits the long
  form needs white space where the numeric form needs a digit or the slash.
\<close>

lemma date_patterns_apart:
  assumes "x \<in> set (rmatch True s pat_date_long (i, None))"
    and "y \<in> set (rmatch False s pat_date_num (i, None))"
  shows False
proof -
  from assms(1) obtain k h where k: "(k, h) \<in> set (rmatch True s (Rep digit 1 (Some 2)) (i, None))"
    and "\<exists>z. z \<in> set (rmatch True s (Rep space 1 None) (k, h))"
    unfolding pat_date_long_def in_rmatch_cat_Cons [of _ _ _ WordB] in_rmatch_WordB
    unfolding in_rmatch_cat_Cons [of _ _ _ "Rep digit 1 (Some 2)"]
    unfolding in_rmatch_cat_Cons [of _ _ _ "Rep space 1 None"]
    by fastforce
  then have sp: "0 < count_run True space s k None"
    by (auto simp: in_rmatch_Rep')
  from count_run_match [OF sp] have space: "isspace (s ! k)" by simp
  from k have "i + 1 \<le> k" and "k \<le> i + count_run True digit s i (Some 2)"
    by (simp_all add: in_rmatch_Rep)
  with count_run_hi [of True digit s i 2] have k12: "k = i + 1 \<or> k = i + 2" by linarith
  from assms(2) obtain k' h' where k': "(k', h') \<in> set (rmatch False s (Rep digit 2 (Some 2)) (i, None))"
    and "\<exists>z. z \<in> set (rmatch False s (Atom (Lit 0x2F)) (k', h'))"
    unfolding pat_date_num_def in_rmatch_cat_Cons [of _ _ _ WordB] in_rmatch_WordB
    unfolding in_rmatch_cat_Cons [of _ _ _ "Rep digit 2 (Some 2)"]
    unfolding in_rmatch_cat_Cons [of _ _ _ "Atom (Lit 0x2F)"]
    by fastforce
  then have slash: "s ! k' = 0x2F" by (auto simp: in_rmatch_Atom)
  from k' have lo: "i + 2 \<le> k'" and hi: "k' \<le> i + count_run False digit s i (Some 2)"
    by (simp_all add: in_rmatch_Rep)
  with count_run_hi [of False digit s i 2] have k'2: "k' = i + 2"
    and two: "1 < count_run False digit s i (Some 2)" by linarith+
  from count_run_match [OF two] have digit: "isdecimal (s ! (i + 1))" by simp
  have "\<not> isspace 0x2F" by (simp add: isspace_def in_ranges_def)
  with k12 space digit slash k'2 show False
    by (auto dest: decimal_not_space)
qed

lemma date_matches_same_start:
  assumes a: "a \<in> set (date_matches text)" and b: "b \<in> set (date_matches text)"
    and eq: "m_start a = m_start b"
  shows "a = b"
proof -
  have apart: False
    if "x \<in> set (finditer True pat_date_long text)" and "y \<in> set (finditer False pat_date_num text)"
      and "m_start x = m_start y" for x y
    using finditer_mem [OF that(1)] finditer_mem [OF that(2)] that(3)
      date_patterns_apart [of "(m_end x, m_span1 x)" "text" "m_start x" "(m_end y, m_span1 y)"]
    by simp
  from a b consider
      "a \<in> set (finditer True pat_date_long text)" "b \<in> set (finditer True pat_date_long text)"
    | "a \<in> set (finditer False pat_date_num text)" "b \<in> set (finditer False pat_date_num text)"
    | "a \<in> set (finditer True pat_date_long text)" "b \<in> set (finditer False pat_date_num text)"
    | "b \<in> set (finditer True pat_date_long text)" "a \<in> set (finditer False pat_date_num text)"
    by (auto simp: date_matches_def)
  then show ?thesis
  proof cases
    case 1 from 1 eq show ?thesis by (rule finditer_same_start)
  next
    case 2 from 2 eq show ?thesis by (rule finditer_same_start)
  next
    case 3 with eq apart show ?thesis by blast
  next
    case 4 with eq apart [of b a] show ?thesis by simp
  qed
qed

lemma max_from_greatest:
  "max_from k best xs \<in> set (best # xs) \<and> (\<forall>x\<in>set (best # xs). k x \<le> k (max_from k best xs))"
proof -
  from max_from_split [of best xs k] obtain pre post
    where d: "best # xs = pre @ max_from k best xs # post"
      and p: "\<forall>p\<in>set pre. k p < k (max_from k best xs)"
      and q: "\<forall>q\<in>set post. k q \<le> k (max_from k best xs)"
    by blast
  have "set (best # xs) = set pre \<union> {max_from k best xs} \<union> set post"
    by (subst d) auto
  with p q show ?thesis by (auto intro: less_imp_le)
qed

lemma extract_last_date_None:
  "extract_last_date text = None \<longleftrightarrow>
     re_search True pat_date_long text = None \<and> re_search False pat_date_num text = None"
  by (simp add: extract_last_date_def Let_def date_candidates_def finditer_Nil)

lemma extract_last_date_match:
  assumes "date_matches text \<noteq> []"
  shows "\<exists>m\<in>set (date_matches text). extract_last_date text = Some (group0 text m) \<and>
           (\<forall>m'\<in>set (date_matches text). m_start m' \<le> m_start m)"
proof -
  let ?f = "\<lambda>m. (m_start m, strip (group0 text m))"
  let ?c = "date_candidates text"
  let ?r = "max_from fst (hd ?c) (tl ?c)"
  from assms have ne: "?c \<noteq> []" by (simp add: date_candidates_matches)
  then have c: "hd ?c # tl ?c = ?c" by simp
  from max_from_greatest [of fst "hd ?c" "tl ?c"]
  have mem: "?r \<in> set ?c" and ge: "\<forall>x\<in>set ?c. fst x \<le> fst ?r"
    unfolding c by blast+
  from mem obtain m where m: "m \<in> set (date_matches text)" and r: "?r = ?f m"
    by (auto simp: date_candidates_matches)
  have "m_start m' \<le> m_start m" if "m' \<in> set (date_matches text)" for m'
  proof -
    from that have "?f m' \<in> set ?c" by (simp add: date_candidates_matches)
    with ge have "fst (?f m') \<le> fst ?r" by blast
    then show ?thesis unfolding r by simp
  qed
  moreover from ne r have "extract_last_date text = Some (group0 text m)"
    by (simp add: extract_last_date_def Let_def date_matches_stripped [OF m])
  ultimately show ?thesis using m by blast
qed

text \<open>A text with a numeric date and, further on, a date in long form.\<close>

definition two_dates :: str where
  "two_dates = ustr ''Autuado em 01/02/2010. Natal, 08 de janeiro de 2016.''"

lemma two_dates_matches:
  "date_matches two_dates =
     [\<lparr>m_start = 30, m_end = 51, m_span1 = None\<rparr>, \<lparr>m_start = 11, m_end = 21, m_span1 = None\<rparr>]"
  by (simp add: date_matches_def two_dates_def pats engine chars ustr_def)

lemma two_dates_group0:
  "group0 two_dates \<lparr>m_start = 30, m_end = 51, m_span1 = None\<rparr> = ustr ''08 de janeiro de 2016''"
  by (simp add: two_dates_def group0_def slice_def ustr_def)

lemma two_dates_last:
  "extract_last_date two_dates = Some (ustr ''08 de janeiro de 2016'')"
  by (simp add: extract_last_date_def two_dates_def pats engine chars ustr_def)

text \<open>
  C2. The extractor returns \<open>None\<close> exactly when neither date pattern matches anywhere
  in the text. Otherwise, among the pooled matches of the two patterns there is one that
  starts after every other, and the extractor returns the text of the match with the
  greatest start offset. For a text with 01/02/2010 and, further on, 08 de janeiro de
  2016, it returns the latter.
\<close>

theorem last_date_greatest_offset:
  "(extract_last_date text = None \<longleftrightarrow>
      re_search True pat_date_long text = None \<and> re_search False pat_date_num text = None) \<and>
   (\<forall>m\<in>set (date_matches text).
      (\<forall>m'\<in>set (date_matches text). m_start m' \<le> m_start m) \<longrightarrow>
      extract_last_date text = Some (group0 text m)) \<and>
   (extract_last_date text \<noteq> None \<longrightarrow>
      (\<exists>m\<in>set (date_matches text). \<forall>m'\<in>set (date_matches text). m' \<noteq> m \<longrightarrow> m_start m' < m_start m)) \<and>
   extract_last_date (ustr ''Autuado em 01/02/2010. Natal, 08 de janeiro de 2016.'') =
     Some (ustr ''08 de janeiro de 2016'')"
proof (intro conjI ballI impI)
  show "extract_last_date text = None \<longleftrightarrow>
      re_search True pat_date_long text = None \<and> re_search False pat_date_num text = None"
    by (rule extract_last_date_None)
  show "extract_last_date text = Some (group0 text m)"
    if m: "m \<in> set (date_matches text)"
      and ge: "\<forall>m'\<in>set (date_matches text). m_start m' \<le> m_start m" for m
  proof -
    from m have "date_matches text \<noteq> []" by auto
    from extract_last_date_match [OF this] obtain m0 where m0: "m0 \<in> set (date_matches text)"
      and r: "extract_last_date text = Some (group0 text m0)"
      and ge0: "\<forall>m'\<in>set (date_matches text). m_start m' \<le> m_start m0"
      by blast
    from m m0 ge ge0 have "m_start m = m_start m0" by (meson le_antisym)
    with m m0 have "m = m0" by (rule date_matches_same_start)
    with r show ?thesis by simp
  qed
  show "\<exists>m\<in>set (date_matches text). \<forall>m'\<in>set (date_matches text). m' \<noteq> m \<longrightarrow> m_start m' < m_start m"
    if "extract_last_date text \<noteq> None"
  proof -
    from that have "date_matches text \<noteq> []"
      by (auto simp: extract_last_date_def date_candidates_matches)
    from extract_last_date_match [OF this] obtain m0 where m0: "m0 \<in> set (date_matches text)"
      and ge0: "\<forall>m'\<in>set (date_matches text). m_start m' \<le> m_start m0"
      by blast
    have "m_start m' < m_start m0" if "m' \<in> set (date_matches text)" "m' \<noteq> m0" for m'
    proof -
      from that m0 have "m_start m' \<noteq> m_start m0" by (blast dest: date_matches_same_start)
      with ge0 that show ?thesis by (simp add: le_neq_implies_less)
    qed
    with m0 show ?thesis by blast
  qed
  show "extract_last_date (ustr ''Autuado em 01/02/2010. Natal, 08 de janeiro de 2016.'') =
     Some (ustr ''08 de janeiro de 2016'')"
    using two_dates_last by (simp only: two_dates_def)
qed

theorem last_date_greatest_offset_witness:
  "date_matches two_dates =
     [\<lparr>m_start = 30, m_end = 51, m_span1 = None\<rparr>, \<lparr>m_start = 11, m_end = 21, m_span1 = None\<rparr>] \<and>
   extract_last_date two_dates = Some (ustr ''08 de janeiro de 2016'') \<and>
   re_search False pat_date_num (ustr ''sem data'') = None \<and>
   extract_last_date (ustr ''sem data'') = None"
proof -
  note th = last_date_greatest_offset [of two_dates, unfolded two_dates_matches]
  have "extract_last_date two_dates =
      Some (group0 two_dates \<lparr>m_start = 30, m_end = 51, m_span1 = None\<rparr>)"
    by (rule th [THEN conjunct2, THEN conjunct1, rule_format]) auto
  then have a: "extract_last_date two_dates = Some (ustr ''08 de janeiro de 2016'')"
    by (simp only: two_dates_group0)
  have n: "re_search True pat_date_long (ustr ''sem data'') = None"
    "re_search False pat_date_num (ustr ''sem data'') = None"
    by (simp_all add: pats engine chars ustr_def)
  with last_date_greatest_offset [of "ustr ''sem data''"]
  have "extract_last_date (ustr ''sem data'') = None" by blast
  with a n two_dates_matches show ?thesis by simp
qed

section \<open>The value after the first label\<close>

lemma splitlines_from_no_break:
  "\<forall>c\<in>set xs. \<not> is_linebreak c \<Longrightarrow>
     splitlines_from cur (xs @ rest) = splitlines_from (cur @ xs) rest"
proof (induction xs arbitrary: cur)
  case Nil
  show ?case by simp
next
  case (Cons x xs)
  from Cons.prems have x: "\<not> is_linebreak x" and xs: "\<forall>c\<in>set xs. \<not> is_linebreak c"
    by simp_all
  have cr: "is_linebreak 0x0D" by (simp add: is_linebreak_def in_ranges_def)
  with x have x13: "x \<noteq> 0x0D" by auto
  show ?case
  proof (cases "xs @ rest")
    case Nil
    with x show ?thesis by simp
  next
    case (Cons d cs)
    have "splitlines_from cur ((x # xs) @ rest) = splitlines_from cur (x # d # cs)"
      using Cons by simp
    also have "\<dots> = splitlines_from (cur @ [x]) (d # cs)"
      using x x13 by simp
    also have "\<dots> = splitlines_from (cur @ [x]) (xs @ rest)"
      using Cons by simp
    also have "\<dots> = splitlines_from ((cur @ [x]) @ xs) rest"
      using xs by (rule Cons.IH)
    finally show ?thesis by simp
  qed
qed

lemma splitlines_from_break:
  assumes "cur \<noteq> []" and "rest = [] \<or> is_linebreak (hd rest)"
  shows "\<exists>ls. splitlines_from cur rest = cur # ls"
proof (cases rest)
  case Nil
  with assms show ?thesis by simp
next
  case (Cons c cs)
  with assms have "is_linebreak c" by simp
  with Cons show ?thesis by (cases cs) auto
qed

text \<open>The first line of a text that begins with a line, then ends or breaks.\<close>

lemma splitlines_first:
  assumes "xs \<noteq> []" and "\<forall>c\<in>set xs. \<not> is_linebreak c" and "rest = [] \<or> is_linebreak (hd rest)"
  shows "\<exists>ls. splitlines (xs @ rest) = xs # ls"
  using splitlines_from_no_break [OF assms(2), of "[]" rest]
    splitlines_from_break [OF assms(1,3)]
  by (simp add: splitlines_def)

lemma lower_requerente: "lower (ustr ''Requerente'') @ ustr '':'' = ustr ''requerente:''"
  by (simp add: lower_def chars ustr_def)

text \<open>
  C7, amended. Let the text be \<open>pre\<close>, then \<open>Requerente: Jo\<close>, U+00E3, \<open>o Silva\<close>, then
  \<open>post\<close>. If the first occurrence of \<open>requerente:\<close> in the lower-cased text is at
  the offset where this occurrence begins, and \<open>post\<close> is empty or begins with a line
  boundary, the result is the name.
\<close>

theorem requerente_value:
  assumes "str_find (lower (pre @ ustr ''Requerente: Jo'' @ [0xE3] @ ustr ''o Silva'' @ post))
             (ustr ''requerente:'') = Some (length pre)"
    and "post = [] \<or> is_linebreak (hd post)"
  shows "find_label_value (pre @ ustr ''Requerente: Jo'' @ [0xE3] @ ustr ''o Silva'' @ post)
           (ustr ''Requerente'') 300 = Some (ustr ''Jo'' @ [0xE3] @ ustr ''o Silva'')"
proof -
  define L where "L = ustr ''Requerente:''"
  define V where "V = ustr '' Jo'' @ [0xE3] @ ustr ''o Silva''"
  let ?text = "pre @ ustr ''Requerente: Jo'' @ [0xE3] @ ustr ''o Silva'' @ post"
  have t: "?text = pre @ L @ V @ post" by (simp add: L_def V_def ustr_def)
  have len: "length (ustr ''requerente:'') = 11" "length L = 11" "length V = 11"
    by (simp_all add: L_def V_def ustr_def)
  have "slice ?text (length pre + 11) (length pre + 11 + 300) = take 300 (V @ post)"
    unfolding t by (simp add: slice_def len)
  also have "\<dots> = V @ take 289 post" by (simp add: len)
  finally have snippet: "slice ?text (length pre + 11) (length pre + 11 + 300) = V @ take 289 post" .
  have "take 289 post = [] \<or> is_linebreak (hd (take 289 post))"
    using assms(2) by (cases post) auto
  moreover have "V \<noteq> []" "\<forall>c\<in>set V. \<not> is_linebreak c"
    by (simp_all add: V_def ustr_def is_linebreak_def in_ranges_def)
  ultimately obtain ls where ls: "splitlines (V @ take 289 post) = V # ls"
    using splitlines_first by blast
  have s: "strip V = ustr ''Jo'' @ [0xE3] @ ustr ''o Silva''"
    by (simp add: V_def strip_def ustr_def isspace_def in_ranges_def)
  then have "strip V \<noteq> []" by (simp add: ustr_def)
  with ls have "List.find (\<lambda>line. strip line \<noteq> []) (splitlines (V @ take 289 post)) = Some V"
    by simp
  with assms(1) snippet s show ?thesis
    unfolding find_label_value_def lower_requerente Let_def by (simp add: len)
qed

lemma requerente_sample:
  "str_find (lower (ustr ''Autos. '' @ ustr ''Requerente: Jo'' @ [0xE3] @ ustr ''o Silva'' @ ([0x0A] @ ustr ''CPF'')))
     (ustr ''requerente:'') = Some (length (ustr ''Autos. ''))"
  by (simp add: engine chars ustr_def)

theorem requerente_value_witness:
  "find_label_value (ustr ''Autos. '' @ ustr ''Requerente: Jo'' @ [0xE3] @ ustr ''o Silva'' @ ([0x0A] @ ustr ''CPF''))
     (ustr ''Requerente'') 300 = Some (ustr ''Jo'' @ [0xE3] @ ustr ''o Silva'')"
  by (rule requerente_value [OF requerente_sample]) (simp add: is_linebreak_def in_ranges_def)

section \<open>A pattern without word boundaries does not look behind its start\<close>

fun no_wordb :: "regex \<Rightarrow> bool" where
  "no_wordb Eps = True"
| "no_wordb (Atom a) = True"
| "no_wordb (Rep a lo hi) = True"
| "no_wordb (Seq r1 r2) = (no_wordb r1 \<and> no_wordb r2)"
| "no_wordb (Alt r1 r2) = (no_wordb r1 \<and> no_wordb r2)"
| "no_wordb (Opt r) = no_wordb r"
| "no_wordb WordB = False"
| "no_wordb (Group r) = no_wordb r"

text \<open>A state of the matcher on \<open>s\<close>, seen from the text \<open>pre @ s\<close> with \<open>n = length pre\<close>.\<close>

definition shift :: "nat \<Rightarrow> mstate \<Rightarrow> mstate" where
  "shift n st = (n + fst st, map_option (\<lambda>(a, b). (n + a, n + b)) (snd st))"

lemma shift_pair: "shift n (i, g) = (n + i, map_option (\<lambda>(a, b). (n + a, n + b)) g)"
  by (simp add: shift_def)

lemma count_run_shift:
  "count_run ic a (pre @ s) (length pre + i) hi = count_run ic a s i hi"
  by (simp add: count_run_def)

lemma rmatch_shift:
  "no_wordb r \<Longrightarrow>
     rmatch ic (pre @ s) r (shift (length pre) st) = map (shift (length pre)) (rmatch ic s r st)"
proof (induction r arbitrary: st)
  case Eps
  show ?case by simp
next
  case (Atom a)
  show ?case by (cases st) (simp add: shift_pair nth_append)
next
  case (Rep a lo hi)
  show ?case
    by (cases st) (simp add: shift_pair rmatch.simps(3) count_run_shift Let_def add.assoc)
next
  case (Seq r1 r2)
  then have 1: "rmatch ic (pre @ s) r1 (shift (length pre) st) =
      map (shift (length pre)) (rmatch ic s r1 st)"
    and 2: "\<And>y. rmatch ic (pre @ s) r2 (shift (length pre) y) =
      map (shift (length pre)) (rmatch ic s r2 y)"
    by simp_all
  show ?case
    by (simp add: 1 2 map_concat comp_def)
next
  case (Alt r1 r2)
  then show ?case by simp
next
  case (Opt r)
  then show ?case by simp
next
  case WordB
  then show ?case by simp
next
  case (Group r)
  then have "rmatch ic (pre @ s) r (shift (length pre) st) =
      map (shift (length pre)) (rmatch ic s r st)"
    by simp
  then show ?case
    by (cases st) (auto simp: shift_pair comp_def split_beta)
qed

lemma no_wordb_cat: "no_wordb (cat rs) \<longleftrightarrow> (\<forall>r\<in>set rs. no_wordb r)"
  by (induction rs) (simp_all add: cat_def)

lemma no_wordb_word: "no_wordb (word w)"
  by (simp add: word_def no_wordb_cat)

lemma no_wordb_pats: "no_wordb pat_processo" "no_wordb pat_matricula"
  by (simp_all add: pat_processo_def pat_matricula_def matricula_label_def matricula_value_def
      no_wordb_cat no_wordb_word)

text \<open>
  The search finds an occurrence after \<open>pre\<close> when the pattern matches at no offset
  inside \<open>pre\<close> and matches the rest of the text at its beginning.
\<close>

lemma search_after_prefix:
  assumes nw: "no_wordb r"
    and first: "\<forall>i<length pre. rmatch ic (pre @ s) r (i, None) = []"
    and here: "rmatch ic s r (0, None) = (j, Some (a, b)) # rest"
  shows "re_search ic r (pre @ s) =
     Some \<lparr>m_start = length pre, m_end = length pre + j,
           m_span1 = Some (length pre + a, length pre + b)\<rparr>"
proof -
  from rmatch_shift [OF nw, of ic pre s "(0, None)"] here
  have "rmatch ic (pre @ s) r (length pre, None) =
      (length pre + j, Some (length pre + a, length pre + b)) # map (shift (length pre)) rest"
    by (simp add: shift_pair)
  then show ?thesis
    unfolding re_search_def using first by (intro search_from_first) simp_all
qed

section \<open>The number after the word Processo, the registration after its label\<close>

text \<open>The characters a process number is made of, and those of a registration number.\<close>

definition processo_char :: "cp \<Rightarrow> bool" where
  "processo_char c \<longleftrightarrow> (0x30 \<le> c \<and> c \<le> 0x39) \<or> c = 0x2F \<or> c = 0x2E \<or> c = 0x2D"

definition matricula_char :: "cp \<Rightarrow> bool" where
  "matricula_char c \<longleftrightarrow> isdecimal c \<or> c = 0x2E \<or> c = 0x2D \<or> c = 0x2F"

lemma processo_here:
  assumes "post = [] \<or> \<not> processo_char (hd post)"
  shows "\<exists>rest. rmatch True (ustr ''Processo N'' @ [0xBA] @ ustr '' 213/2016'' @ post)
           pat_processo (0, None) = (20, Some (12, 20)) # rest"
proof (cases post)
  case Nil
  then show ?thesis by (simp add: pats engine chars ustr_def)
next
  case (Cons p ps)
  with assms have "\<not> processo_char p" by simp
  with Cons show ?thesis by (simp add: processo_char_def pats engine chars ustr_def)
qed

lemma matricula_here:
  assumes "post = [] \<or> \<not> matricula_char (hd post)"
  shows "\<exists>rest. rmatch True (ustr ''Matr'' @ [0xED] @ ustr ''cula: 197.942-6'' @ post)
           pat_matricula (0, None) = (20, Some (11, 20)) # rest"
proof (cases post)
  case Nil
  then show ?thesis by (simp add: pats engine chars ustr_def)
next
  case (Cons p ps)
  with assms have "\<not> matricula_char p" by simp
  with Cons show ?thesis by (simp add: matricula_char_def pats engine chars ustr_def)
qed

text \<open>
  C5 as stated fails: a full stop after the number belongs to the characters of group 1,
  and \<open>strip\<close> removes white space only.
\<close>

theorem processo_number_counterexample:
  "extract_numero_processo (ustr ''Processo N'' @ [0xBA] @ ustr '' 213/2016'' @ ustr ''.'') =
     Inr (Some (ustr ''213/2016.'')) \<and>
   extract_numero_processo (ustr ''Processo N'' @ [0xBA] @ ustr '' 213/2016'' @ ustr ''.'') \<noteq>
     Inr (Some (ustr ''213/2016''))"
  by (simp add: extract_numero_processo_def pats engine chars ustr_def)

text \<open>
  C5, amended. Let the text be \<open>pre\<close>, then \<open>Processo N\<close>, U+00BA, \<open> 213/2016\<close>, then
  \<open>post\<close>. If the Processo pattern matches at no offset inside \<open>pre\<close>, and \<open>post\<close> is
  empty or begins with a character that is not a digit 0-9, a slash, a full stop or a
  hyphen, the result is \<open>213/2016\<close>.
\<close>

theorem processo_number_value:
  assumes "\<forall>i<length pre.
      rmatch True (pre @ ustr ''Processo N'' @ [0xBA] @ ustr '' 213/2016'' @ post)
        pat_processo (i, None) = []"
    and "post = [] \<or> \<not> processo_char (hd post)"
  shows "extract_numero_processo (pre @ ustr ''Processo N'' @ [0xBA] @ ustr '' 213/2016'' @ post) =
     Inr (Some (ustr ''213/2016''))"
proof -
  from processo_here [OF assms(2)] obtain rest
    where "rmatch True (ustr ''Processo N'' @ [0xBA] @ ustr '' 213/2016'' @ post)
             pat_processo (0, None) = (20, Some (12, 20)) # rest" ..
  from search_after_prefix [OF no_wordb_pats(1) assms(1) this]
  have "re_search True pat_processo (pre @ ustr ''Processo N'' @ [0xBA] @ ustr '' 213/2016'' @ post) =
      Some \<lparr>m_start = length pre, m_end = length pre + 20,
            m_span1 = Some (length pre + 12, length pre + 20)\<rparr>" .
  then show ?thesis
    by (simp add: extract_numero_processo_def group1_strip_def group1_def slice_def strip_def
        isspace_def in_ranges_def ustr_def)
qed

lemma processo_sample:
  "re_search True pat_processo
     (ustr ''Ref. '' @ ustr ''Processo N'' @ [0xBA] @ ustr '' 213/2016'' @ ustr '', fls. 2'') =
   Some \<lparr>m_start = 5, m_end = 25, m_span1 = Some (17, 25)\<rparr>"
  by (simp add: pats engine chars ustr_def)

theorem processo_number_value_witness:
  "extract_numero_processo
     (ustr ''Ref. '' @ ustr ''Processo N'' @ [0xBA] @ ustr '' 213/2016'' @ ustr '', fls. 2'') =
   Inr (Some (ustr ''213/2016''))"
proof (rule processo_number_value)
  show "\<forall>i<length (ustr ''Ref. '').
      rmatch True (ustr ''Ref. '' @ ustr ''Processo N'' @ [0xBA] @ ustr '' 213/2016'' @ ustr '', fls. 2'')
        pat_processo (i, None) = []"
    using search_from_Some [OF processo_sample [unfolded re_search_def]]
    by (simp add: ustr_def)
  show "ustr '', fls. 2'' = [] \<or> \<not> processo_char (hd (ustr '', fls. 2''))"
    by (simp add: processo_char_def ustr_def)
qed

text \<open>C6 as stated fails in the same way.\<close>

theorem matricula_value_counterexample:
  "extract_matricula (ustr ''Matr'' @ [0xED] @ ustr ''cula: 197.942-6'' @ ustr ''.'') =
     Inr (Some (ustr ''197.942-6.'')) \<and>
   extract_matricula (ustr ''Matr'' @ [0xED] @ ustr ''cula: 197.942-6'' @ ustr ''.'') \<noteq>
     Inr (Some (ustr ''197.942-6''))"
  by (simp add: extract_matricula_def pats engine chars ustr_def)

text \<open>
  C6, amended. Let the text be \<open>pre\<close>, then \<open>Matr\<close>, U+00ED, \<open>cula: 197.942-6\<close>, then
  \<open>post\<close>. If the first registration pattern matches at no offset inside \<open>pre\<close>, and
  \<open>post\<close> is empty or begins with a character that is not a digit, a full stop, a
  hyphen or a slash, the result is \<open>197.942-6\<close>.
\<close>

theorem matricula_value:
  assumes "\<forall>i<length pre.
      rmatch True (pre @ ustr ''Matr'' @ [0xED] @ ustr ''cula: 197.942-6'' @ post)
        pat_matricula (i, None) = []"
    and "post = [] \<or> \<not> matricula_char (hd post)"
  shows "extract_matricula (pre @ ustr ''Matr'' @ [0xED] @ ustr ''cula: 197.942-6'' @ post) =
     Inr (Some (ustr ''197.942-6''))"
proof -
  from matricula_here [OF assms(2)] obtain rest
    where "rmatch True (ustr ''Matr'' @ [0xED] @ ustr ''cula: 197.942-6'' @ post)
             pat_matricula (0, None) = (20, Some (11, 20)) # rest" ..
  from search_after_prefix [OF no_wordb_pats(2) assms(1) this]
  have "re_search True pat_matricula (pre @ ustr ''Matr'' @ [0xED] @ ustr ''cula: 197.942-6'' @ post) =
      Some \<lparr>m_start = length pre, m_end = length pre + 20,
            m_span1 = Some (length pre + 11, length pre + 20)\<rparr>" .
  then show ?thesis
    by (simp add: extract_matricula_def group1_strip_def group1_def slice_def strip_def
        isspace_def in_ranges_def ustr_def)
qed

lemma matricula_sample:
  "re_search True pat_matricula
     (ustr ''Servidor, '' @ ustr ''Matr'' @ [0xED] @ ustr ''cula: 197.942-6'' @ ustr '', lotado'') =
   Some \<lparr>m_start = 10, m_end = 30, m_span1 = Some (21, 30)\<rparr>"
  by (simp add: pats engine chars ustr_def)

theorem matricula_value_witness:
  "extract_matricula
     (ustr ''Servidor, '' @ ustr ''Matr'' @ [0xED] @ ustr ''cula: 197.942-6'' @ ustr '', lotado'') =
   Inr (Some (ustr ''197.942-6''))"
proof (rule matricula_value)
  show "\<forall>i<length (ustr ''Servidor, '').
      rmatch True (ustr ''Servidor, '' @ ustr ''Matr'' @ [0xED] @ ustr ''cula: 197.942-6'' @ ustr '', lotado'')
        pat_matricula (i, None) = []"
    using search_from_Some [OF matricula_sample [unfolded re_search_def]]
    by (simp add: ustr_def)
  show "ustr '', lotado'' = [] \<or> \<not> matricula_char (hd (ustr '', lotado''))"
    by (simp add: matricula_char_def isdecimal_def in_ranges_def ustr_def)
qed

end
